theory Spec2Isabelle
  imports Complex_Main
begin

section \<open>HTTP responses\<close>

text \<open>
  Both scripts talk to the GitLab REST API through \<^verbatim>\<open>requests\<close>.  A call either raises
  (a timeout, a connection error, anything else) or returns a response with a status code,
  headers and a body.  The body is kept decoded: \<open>None\<close> stands for a body on which
  \<^verbatim>\<open>response.json()\<close> raises.
\<close>

datatype exn = Timeout | ConnectionError | OtherError

type_synonym headers = "string \<rightharpoonup> string"

datatype 'a http =
    Raised exn
  | Response (status_code: int) (hdrs: headers) (json: "'a option")

text \<open>\<^verbatim>\<open>'X-Next-Page' in response.headers and response.headers['X-Next-Page']\<close>\<close>

definition has_next_page :: "headers \<Rightarrow> bool" where
  "has_next_page h = (case h ''X-Next-Page'' of None \<Rightarrow> False | Some v \<Rightarrow> v \<noteq> [])"

section \<open>Paginated listing fetch\<close>

text \<open>
  \<^verbatim>\<open>fetch_all_groups\<close> (both scripts) and \<^verbatim>\<open>fetch_all_projects\<close> run the same
  \<^verbatim>\<open>while True\<close> loop.  The loop has no bound of its own, so the model counts iterations:
  the outer \<open>None\<close> means the budget ran out before the loop returned.  The inner option is
  Python's return value: \<open>None\<close> the failure signal, \<open>Some xs\<close> the list.
  The server is a function of the requested page number.
\<close>

fun fetch_pages :: "nat \<Rightarrow> (nat \<Rightarrow> 'a list http) \<Rightarrow> nat \<Rightarrow> 'a list \<Rightarrow> 'a list option option" where
  "fetch_pages 0 srv page acc = None"
| "fetch_pages (Suc fuel) srv page acc =
     (case srv page of
        Raised e \<Rightarrow> Some None
      | Response st h body \<Rightarrow>
          if st \<noteq> 200 then Some None
          else (case body of
                  None \<Rightarrow> Some None
                | Some items \<Rightarrow>
                    if items = [] then Some (Some acc)
                    else if has_next_page h then fetch_pages fuel srv (page + 1) (acc @ items)
                    else Some (Some (acc @ items))))"

text \<open>The listing endpoints, as functions of \<^verbatim>\<open>per_page\<close> and \<^verbatim>\<open>page\<close>.\<close>

definition fetch_all_groups :: "nat \<Rightarrow> (nat \<Rightarrow> nat \<Rightarrow> 'g list http) \<Rightarrow> 'g list option option" where
  "fetch_all_groups fuel groups_api = fetch_pages fuel (groups_api 50) 1 []"

definition fetch_all_projects ::
  "nat \<Rightarrow> (string \<Rightarrow> nat \<Rightarrow> nat \<Rightarrow> 'p list http) \<Rightarrow> string \<Rightarrow> 'p list option option" where
  "fetch_all_projects fuel projects_api group_name = fetch_pages fuel (projects_api group_name 100) 1 []"

text \<open>What one page does to the loop.\<close>

definition page_fails :: "'a list http \<Rightarrow> bool" where
  "page_fails r = (case r of Raised e \<Rightarrow> True | Response st h body \<Rightarrow> st \<noteq> 200)"

definition page_items :: "'a list http \<Rightarrow> 'a list" where
  "page_items r = (case r of Raised e \<Rightarrow> [] | Response st h body \<Rightarrow> (case body of None \<Rightarrow> [] | Some items \<Rightarrow> items))"

definition page_ok :: "'a list http \<Rightarrow> bool" where
  "page_ok r = (case r of Raised e \<Rightarrow> False | Response st h body \<Rightarrow> st = 200 \<and> body \<noteq> None)"

definition page_continues :: "'a list http \<Rightarrow> bool" where
  "page_continues r = (page_ok r \<and> page_items r \<noteq> [] \<and>
     (case r of Raised e \<Rightarrow> False | Response st h body \<Rightarrow> has_next_page h))"

definition page_last :: "'a list http \<Rightarrow> bool" where
  "page_last r = (page_ok r \<and> (page_items r = [] \<or>
     (case r of Raised e \<Rightarrow> True | Response st h body \<Rightarrow> \<not> has_next_page h)))"

text \<open>
  A server that pages one ordered collection: page \<open>p\<close> of size \<open>k\<close> holds the items
  \<open>(p - 1) * k\<close> up to \<open>p * k\<close>, and the \<^verbatim>\<open>X-Next-Page\<close> header names the next page
  while items remain and is empty on the last page (as GitLab sends it).
\<close>

fun show_nat :: "nat \<Rightarrow> string" where
  "show_nat n = (if n < 10 then [char_of (48 + n)] else show_nat (n div 10) @ [char_of (48 + n mod 10)])"

declare show_nat.simps [simp del]

definition paged_listing :: "'a list \<Rightarrow> nat \<Rightarrow> nat \<Rightarrow> 'a list http" where
  "paged_listing xs per_page page =
     Response 200
       [''X-Next-Page'' \<mapsto> (if page * per_page < length xs then show_nat (page + 1) else [])]
       (Some (take per_page (drop ((page - 1) * per_page) xs)))"

definition pages_concat :: "(nat \<Rightarrow> 'a list http) \<Rightarrow> nat \<Rightarrow> nat \<Rightarrow> 'a list" where
  "pages_concat srv page n = concat (map (\<lambda>q. page_items (srv q)) [page ..< page + n])"

section \<open>Python built-ins used by the scripts\<close>

text \<open>
  Strings are byte strings here; \<^verbatim>\<open>str.strip\<close>, \<^verbatim>\<open>str.lower\<close> and \<^verbatim>\<open>int\<close> are modelled
  on ASCII input (the whitespace, letters and digits of ASCII).
\<close>

definition is_space :: "char \<Rightarrow> bool" where
  "is_space c = (let n = (of_char c :: nat) in (9 \<le> n \<and> n \<le> 13) \<or> (28 \<le> n \<and> n \<le> 32))"

definition strip :: "string \<Rightarrow> string" where
  "strip s = rev (dropWhile is_space (rev (dropWhile is_space s)))"

definition lower_char :: "char \<Rightarrow> char" where
  "lower_char c = (let n = (of_char c :: nat) in if 65 \<le> n \<and> n \<le> 90 then char_of (n + 32) else c)"

definition lower :: "string \<Rightarrow> string" where
  "lower s = map lower_char s"

definition endswith :: "string \<Rightarrow> string \<Rightarrow> bool" where
  "endswith s ext = (length ext \<le> length s \<and> drop (length s - length ext) s = ext)"

definition is_digit :: "char \<Rightarrow> bool" where
  "is_digit c = (let n = (of_char c :: nat) in 48 \<le> n \<and> n \<le> 57)"

text \<open>Decimal digits, single underscores allowed between digits.\<close>

fun digit_groups :: "string \<Rightarrow> bool" where
  "digit_groups [] = False"
| "digit_groups [c] = is_digit c"
| "digit_groups (c # d # cs) =
     (is_digit c \<and> (if d = CHR ''_'' then digit_groups cs else digit_groups (d # cs)))"

definition digits_value :: "string \<Rightarrow> int" where
  "digits_value ds = foldl (\<lambda>acc c. 10 * acc + (int (of_char c) - 48)) 0 (filter is_digit ds)"

text \<open>\<^verbatim>\<open>int(s)\<close> on a string; \<open>None\<close> is \<^verbatim>\<open>ValueError\<close>.\<close>

definition py_int :: "string \<Rightarrow> int option" where
  "py_int s =
     (case strip s of
        [] \<Rightarrow> None
      | c # cs \<Rightarrow>
          if c = CHR ''-'' then (if digit_groups cs then Some (- digits_value cs) else None)
          else if c = CHR ''+'' then (if digit_groups cs then Some (digits_value cs) else None)
          else (if digit_groups (c # cs) then Some (digits_value (c # cs)) else None))"

text \<open>The values a CSV cell of the reports can hold.\<close>

datatype pyval = PyNone | PyBool bool | PyInt int | PyFloat rat | PyStr string

type_synonym row = "(string \<times> pyval) list"

text \<open>\<^verbatim>\<open>d.get(key, default)\<close> on an optional entry.\<close>

definition get_or :: "'a option \<Rightarrow> 'a \<Rightarrow> 'a" where
  "get_or v d = (case v of None \<Rightarrow> d | Some x \<Rightarrow> x)"

section \<open>Bytes to megabytes\<close>

text \<open>
  \<^verbatim>\<open>round(bytes_value / (1024 * 1024), 2)\<close> is computed in binary floating point.  A
  float is modelled by the rational it denotes.  \<open>nearest_double q\<close> is the double nearest
  to \<open>q\<close>, ties to the even significand (53 bits, exponents from \<open>-1022\<close>, subnormals
  below); it is \<open>None\<close> when that double is not finite, where Python raises
  \<^verbatim>\<open>OverflowError\<close>.  The true division of two integers is the nearest double of the
  exact quotient, and \<^verbatim>\<open>round(x, 2)\<close> is the nearest double of the exact value of \<open>x\<close>
  rounded to two decimals, ties to even.
\<close>

definition round_half_even :: "rat \<Rightarrow> int" where
  "round_half_even q =
     (let f = \<lfloor>q\<rfloor>; d = q - of_int f
      in if d < 1 / 2 then f else if 1 / 2 < d then f + 1 else if even f then f else f + 1)"

text \<open>The number of binary digits of \<open>n\<close>, and the exponent \<open>e\<close> with \<open>2^e \<le> q < 2^(e+1)\<close>.\<close>

fun bit_len :: "nat \<Rightarrow> nat" where
  "bit_len n = (if n = 0 then 0 else Suc (bit_len (n div 2)))"

declare bit_len.simps [simp del]

definition floor_log2 :: "rat \<Rightarrow> int" where
  "floor_log2 q =
     (let (a, b) = quotient_of q;
          d = int (bit_len (nat a)) - int (bit_len (nat b))
      in if 2 powi d \<le> q then d else d - 1)"

definition nearest_double :: "rat \<Rightarrow> rat option" where
  "nearest_double q =
     (if q = 0 then Some 0
      else
        let e = max (floor_log2 \<bar>q\<bar>) (- 1022);
            ulp = 2 powi (e - 52);
            r = of_int (round_half_even (q / ulp)) * ulp
        in if 2 powi 1024 \<le> \<bar>r\<bar> then None else Some r)"

definition py_round2 :: "rat \<Rightarrow> rat option" where
  "py_round2 x = nearest_double (of_int (round_half_even (x * 100)) / 100)"

text \<open>\<open>None\<close> is \<^verbatim>\<open>OverflowError\<close>; an absent value gives the integer 0.\<close>

definition bytes_to_mb :: "int option \<Rightarrow> rat option" where
  "bytes_to_mb bytes_value =
     (case bytes_value of
        None \<Rightarrow> Some 0
      | Some b \<Rightarrow>
          (case nearest_double (of_int b / (1024 * 1024)) of
             None \<Rightarrow> None
           | Some x \<Rightarrow> py_round2 x))"

section \<open>API payloads\<close>

text \<open>
  The JSON bodies are kept decoded into the fields the scripts read.  An optional field
  is \<open>None\<close> when the key is absent; numeric statistics are integers, as GitLab sends
  them.  A JSON null in place of a number or of a statistics object is not modelled (the
  code raises on it).
\<close>

record size_statistics =
  st_repository_size :: "int option"
  st_storage_size :: "int option"
  st_commit_count :: "int option"

record project_info =
  info_default_branch :: "string option"
  info_statistics :: "size_statistics option"

record branch =
  b_name :: "string option"

record tree_item =
  item_type :: "string option"
  item_path :: "string option"

record contributor =
  commits :: "int option"

text \<open>
  One entry of the group-projects listing.  \<^verbatim>\<open>project['id']\<close> and \<^verbatim>\<open>project['name']\<close>
  are indexed outside every handler, so they are plain fields; the two \<^verbatim>\<open>_group_*\<close>
  entries are the ones the main block adds.
\<close>

record project =
  p_id :: int
  p_name :: string
  p_path :: "string option"
  p_path_with_namespace :: "string option"
  p_archived :: "bool option"
  p_default_branch :: "pyval option"
  p_star_count :: "pyval option"
  p_forks_count :: "pyval option"
  p_open_issues_count :: "pyval option"
  p_last_activity_at :: "pyval option"
  p_visibility :: "pyval option"
  p_created_at :: "pyval option"
  p_web_url :: "pyval option"
  p_statistics :: "size_statistics option"
  p_group_name :: "string option"
  p_group_path :: "string option"

record group =
  g_id :: int
  g_name :: string
  g_full_path :: string
  g_path :: "string option"
  g_description :: "pyval option"
  g_visibility :: "pyval option"
  g_created_at :: "pyval option"
  g_parent_id :: "pyval option"
  g_web_url :: "pyval option"
  g_statistics :: "size_statistics option"

text \<open>
  The endpoints \<^verbatim>\<open>gitlab-details.py\<close> calls for one project, each a function of what
  its URL and parameters vary in.  A \<^verbatim>\<open>HEAD\<close> response has no body.
\<close>

record api =
  project_details :: "int \<Rightarrow> project_info http"
  project_plain :: "int \<Rightarrow> project_info http"
  branches_head :: "int \<Rightarrow> unit http"
  branches_get1 :: "int \<Rightarrow> branch list http"
  branches_get100 :: "int \<Rightarrow> branch list http"
  commits_head :: "int \<Rightarrow> string \<Rightarrow> unit http"
  search_head :: "int \<Rightarrow> unit http"
  tree_get :: "int \<Rightarrow> string \<Rightarrow> nat \<Rightarrow> tree_item list http"
  file_head :: "int \<Rightarrow> string \<Rightarrow> string \<Rightarrow> unit http"
  tags_head :: "int \<Rightarrow> unit http"
  merge_requests_head :: "int \<Rightarrow> unit http"
  contributors_get :: "int \<Rightarrow> contributor list http"

text \<open>The endpoints \<^verbatim>\<open>gitlab-groups.py\<close> calls for one group.\<close>

record group_api =
  group_projects_head :: "int \<Rightarrow> unit http"
  group_projects_get1 :: "int \<Rightarrow> unit list http"
  subgroups_head :: "int \<Rightarrow> unit http"
  subgroups_get1 :: "int \<Rightarrow> unit list http"
  members_head :: "int \<Rightarrow> unit http"
  members_get1 :: "int \<Rightarrow> unit list http"

section \<open>Counts read from the \<^verbatim>\<open>X-Total\<close> header\<close>

text \<open>
  \<^verbatim>\<open>get_branch_count\<close> and the three group counters share one body: a \<^verbatim>\<open>HEAD\<close>
  request whose \<^verbatim>\<open>X-Total\<close> header is the count, else a \<^verbatim>\<open>GET\<close> whose header or
  number of items is; every exception gives 0.
\<close>

definition head_then_get_count :: "unit http \<Rightarrow> 'a list http \<Rightarrow> int" where
  "head_then_get_count head_response get_response =
     (case head_response of
        Raised e \<Rightarrow> 0
      | Response st h b \<Rightarrow>
          if st = 200 \<and> h ''X-Total'' \<noteq> None
          then get_or (py_int (the (h ''X-Total''))) 0
          else (case get_response of
                  Raised e \<Rightarrow> 0
                | Response st2 h2 body \<Rightarrow>
                    if st2 = 200
                    then (if h2 ''X-Total'' \<noteq> None
                          then get_or (py_int (the (h2 ''X-Total''))) 0
                          else (case body of None \<Rightarrow> 0 | Some items \<Rightarrow> int (length items)))
                    else 0))"

definition get_branch_count :: "api \<Rightarrow> int \<Rightarrow> int" where
  "get_branch_count env project_id =
     head_then_get_count (branches_head env project_id) (branches_get1 env project_id)"

definition get_group_project_count :: "group_api \<Rightarrow> int \<Rightarrow> int" where
  "get_group_project_count genv group_id =
     head_then_get_count (group_projects_head genv group_id) (group_projects_get1 genv group_id)"

definition get_subgroup_count :: "group_api \<Rightarrow> int \<Rightarrow> int" where
  "get_subgroup_count genv group_id =
     head_then_get_count (subgroups_head genv group_id) (subgroups_get1 genv group_id)"

definition get_group_member_count :: "group_api \<Rightarrow> int \<Rightarrow> int" where
  "get_group_member_count genv group_id =
     head_then_get_count (members_head genv group_id) (members_get1 genv group_id)"

section \<open>File count on the default branch\<close>

definition is_blob :: "tree_item \<Rightarrow> bool" where
  "is_blob item = (item_type item = Some ''blob'')"

text \<open>
  The tree loop of \<^verbatim>\<open>get_repository_file_count\<close>: \<^verbatim>\<open>while page <= max_pages\<close> with
  \<^verbatim>\<open>max_pages = 50\<close>.  A 404 returns 0 at once; every other way out is a
  \<^verbatim>\<open>break\<close> that returns the files counted so far.  An \<^verbatim>\<open>X-Total-Pages\<close> header
  that is not a number raises and breaks after the page was counted.  The estimate
  \<^verbatim>\<open>int((len(all_files) / page) * total_pages)\<close> is only logged, but it is computed in
  floating point and raises \<^verbatim>\<open>OverflowError\<close>, which breaks as well, when
  \<^verbatim>\<open>total_pages\<close> or the product does not fit a float.
\<close>

definition estimate_raises :: "nat \<Rightarrow> nat \<Rightarrow> int \<Rightarrow> bool" where
  "estimate_raises file_total page total_pages =
     (case nearest_double (of_nat file_total / of_nat page) of
        None \<Rightarrow> True
      | Some files_per_page \<Rightarrow>
          (case nearest_double (of_int total_pages) of
             None \<Rightarrow> True
           | Some pages \<Rightarrow> nearest_double (files_per_page * pages) = None))"

function tree_count_loop :: "api \<Rightarrow> int \<Rightarrow> string \<Rightarrow> nat \<Rightarrow> tree_item list \<Rightarrow> int" where
  "tree_count_loop env project_id default_branch page all_files =
     (if page \<le> 50 then
        (case tree_get env project_id default_branch page of
           Raised e \<Rightarrow> int (length all_files)
         | Response st h body \<Rightarrow>
             if st = 404 then 0
             else if st \<noteq> 200 then int (length all_files)
             else (case body of
                     None \<Rightarrow> int (length all_files)
                   | Some items \<Rightarrow>
                       if items = [] then int (length all_files)
                       else
                         let all_files' = all_files @ filter is_blob items;
                             total_pages_header = get_or (h ''X-Total-Pages'') []
                         in if total_pages_header \<noteq> [] \<and>
                               (case py_int total_pages_header of
                                  None \<Rightarrow> True
                                | Some total_pages \<Rightarrow>
                                    total_pages > 50 \<and> all_files' \<noteq> [] \<and>
                                    estimate_raises (length all_files') page total_pages)
                            then int (length all_files')
                            else if \<not> has_next_page h then int (length all_files')
                            else tree_count_loop env project_id default_branch (page + 1) all_files'))
      else int (length all_files))"
  by pat_completeness auto
termination
  by (relation "measure (\<lambda>(env, project_id, default_branch, page, all_files). 51 - page)") auto

declare tree_count_loop.simps [simp del]

text \<open>
  The search-based count for repositories over 10000 MB.  \<open>None\<close> means the block fell
  through (its request raised, or the commits probe was not a 200) and the standard
  counting runs.
\<close>

definition large_repo_count :: "api \<Rightarrow> int \<Rightarrow> string \<Rightarrow> int option" where
  "large_repo_count env project_id default_branch =
     (case commits_head env project_id default_branch of
        Raised e \<Rightarrow> None
      | Response st h b \<Rightarrow>
          if st = 200 then
            (case search_head env project_id of
               Raised e \<Rightarrow> None
             | Response st2 h2 b2 \<Rightarrow>
                 if st2 = 200 \<and> h2 ''X-Total'' \<noteq> None then
                   (case py_int (the (h2 ''X-Total'')) of
                      None \<Rightarrow> None
                    | Some n \<Rightarrow> if n > 0 then Some n else Some 0)
                 else Some 0)
          else None)"

text \<open>
  \<^verbatim>\<open>repo_size_mb = repo_size / (1024 * 1024)\<close> is a float; when the quotient does not fit
  one the division raises and the handler of the function returns 0.
\<close>

definition get_repository_file_count :: "api \<Rightarrow> int \<Rightarrow> int" where
  "get_repository_file_count env project_id =
     (case project_plain env project_id of
        Raised e \<Rightarrow> 0
      | Response st h body \<Rightarrow>
          if st \<noteq> 200 then 0
          else (case body of
                  None \<Rightarrow> 0
                | Some project_info \<Rightarrow>
                    let default_branch = get_or (info_default_branch project_info) [];
                        repo_size = (case info_statistics project_info of
                                       None \<Rightarrow> 0
                                     | Some s \<Rightarrow> get_or (st_repository_size s) 0)
                    in case nearest_double (of_int repo_size / (1024 * 1024)) of
                         None \<Rightarrow> 0
                       | Some repo_size_mb \<Rightarrow>
                           if default_branch = [] then 0
                           else if repo_size_mb > 10000
                           then (case large_repo_count env project_id default_branch of
                                   Some n \<Rightarrow> n
                                 | None \<Rightarrow> tree_count_loop env project_id default_branch 1 [])
                           else tree_count_loop env project_id default_branch 1 []))"

section \<open>Pipeline configuration\<close>

definition pipeline_files :: "string list" where
  "pipeline_files = [''.gitlab-ci.yml'', ''.gitlab-ci.yaml'', ''gitlab-ci.yml'',
                     ''gitlab-ci.yaml'', ''.gitlab/ci.yml'', ''.gitlab/ci.yaml'']"

fun find_pipeline_file :: "api \<Rightarrow> int \<Rightarrow> string \<Rightarrow> string list \<Rightarrow> bool" where
  "find_pipeline_file env project_id default_branch [] = False"
| "find_pipeline_file env project_id default_branch (pipeline_file # rest) =
     (case file_head env project_id pipeline_file default_branch of
        Raised e \<Rightarrow> find_pipeline_file env project_id default_branch rest
      | Response st h b \<Rightarrow>
          if st = 200 then True
          else find_pipeline_file env project_id default_branch rest)"

definition check_for_pipeline_config :: "api \<Rightarrow> int \<Rightarrow> bool" where
  "check_for_pipeline_config env project_id =
     (case project_plain env project_id of
        Raised e \<Rightarrow> False
      | Response st h body \<Rightarrow>
          if st \<noteq> 200 then False
          else (case body of
                  None \<Rightarrow> False
                | Some project_info \<Rightarrow>
                    let default_branch = get_or (info_default_branch project_info) []
                    in if default_branch = [] then False
                       else find_pipeline_file env project_id default_branch pipeline_files))"

section \<open>Files and large files across branches\<close>

definition large_file_patterns :: "string list" where
  "large_file_patterns = [''.zip'', ''.tar'', ''.gz'', ''.iso'', ''.dmg'', ''.exe'', ''.deb'', ''.rpm'',
                          ''.pkg'', ''.msi'', ''.war'', ''.ear'', ''.jar'', ''.pdf'', ''.mp4'',
                          ''.mov'', ''.avi'', ''.mkv'', ''.mp3'', ''.wav'', ''.flac'']"

definition has_large_file_extension :: "string \<Rightarrow> bool" where
  "has_large_file_extension file_path = list_ex (\<lambda>ext. endswith (lower file_path) ext) large_file_patterns"

text \<open>
  The requests \<^verbatim>\<open>get_all_branches_file_stats\<close> sends, in the order it sends them: the
  branch listing, tree pages of a branch, and the \<^verbatim>\<open>HEAD\<close> on a file that reads its size.
\<close>

datatype request =
    BranchListing int
  | TreePage int string nat
  | FileSize int string string

record scan_state =
  unique_files :: "string set"
  large_file_found :: bool
  issued :: "request list"

text \<open>What the size lookup of one file says: a 200 whose \<^verbatim>\<open>X-Gitlab-Size\<close> is over 100 MiB.\<close>

definition file_size_exceeds :: "api \<Rightarrow> int \<Rightarrow> string \<Rightarrow> string \<Rightarrow> bool" where
  "file_size_exceeds env project_id file_path branch_name =
     (case file_head env project_id file_path branch_name of
        Raised e \<Rightarrow> False
      | Response st h b \<Rightarrow>
          st = 200 \<and>
          (case py_int (get_or (h ''X-Gitlab-Size'') ''0'') of
             None \<Rightarrow> False
           | Some file_size \<Rightarrow> file_size > 100 * 1024 * 1024))"

text \<open>The body of \<^verbatim>\<open>for item in items\<close>.\<close>

definition scan_item :: "api \<Rightarrow> int \<Rightarrow> string \<Rightarrow> scan_state \<Rightarrow> tree_item \<Rightarrow> scan_state" where
  "scan_item env project_id branch_name s item =
     (if item_type item = Some ''blob'' then
        let file_path = get_or (item_path item) [];
            s1 = (if file_path \<noteq> [] then s\<lparr>unique_files := insert file_path (unique_files s)\<rparr> else s)
        in if \<not> large_file_found s1 \<and> file_path \<noteq> [] then
             (if has_large_file_extension file_path then
                let s2 = s1\<lparr>issued := issued s1 @ [FileSize project_id file_path branch_name]\<rparr>
                in if file_size_exceeds env project_id file_path branch_name
                   then s2\<lparr>large_file_found := True\<rparr>
                   else s2
              else s1)
           else s1
      else s)"

text \<open>
  \<^verbatim>\<open>while page <= max_pages_per_branch\<close> with \<^verbatim>\<open>max_pages_per_branch = 5\<close>.  A request
  that raises leaves the loop through the branch's handler, a bad status or an empty page
  through \<^verbatim>\<open>break\<close>; either way the next branch starts from the state reached.
\<close>

function scan_branch_pages :: "api \<Rightarrow> int \<Rightarrow> string \<Rightarrow> nat \<Rightarrow> scan_state \<Rightarrow> scan_state" where
  "scan_branch_pages env project_id branch_name page s =
     (if page \<le> 5 then
        let s1 = s\<lparr>issued := issued s @ [TreePage project_id branch_name page]\<rparr>
        in (case tree_get env project_id branch_name page of
              Raised e \<Rightarrow> s1
            | Response st h body \<Rightarrow>
                if st \<noteq> 200 then s1
                else (case body of
                        None \<Rightarrow> s1
                      | Some items \<Rightarrow>
                          if items = [] then s1
                          else
                            let s2 = foldl (scan_item env project_id branch_name) s1 items
                            in if \<not> has_next_page h then s2
                               else scan_branch_pages env project_id branch_name (page + 1) s2))
      else s)"
  by pat_completeness auto
termination
  by (relation "measure (\<lambda>(env, project_id, branch_name, page, s). 6 - page)") auto

declare scan_branch_pages.simps [simp del]

text \<open>The body of \<^verbatim>\<open>for idx, branch in enumerate(branches_to_check)\<close>.\<close>

definition scan_branch :: "api \<Rightarrow> int \<Rightarrow> scan_state \<Rightarrow> branch \<Rightarrow> scan_state" where
  "scan_branch env project_id s b =
     (let name = get_or (b_name b) []
      in if name = [] then s else scan_branch_pages env project_id name 1 s)"

record branches_file_stats =
  total_files :: int
  bs_has_large_file :: bool

definition scan_all_branches :: "api \<Rightarrow> int \<Rightarrow> branches_file_stats \<times> request list" where
  "scan_all_branches env project_id =
     (let stats = \<lparr>total_files = 0, bs_has_large_file = False\<rparr>;
          sent = [BranchListing project_id]
      in case branches_get100 env project_id of
           Raised e \<Rightarrow> (stats, sent)
         | Response st h body \<Rightarrow>
             if st \<noteq> 200 then (stats, sent)
             else (case body of
                     None \<Rightarrow> (stats, sent)
                   | Some branches \<Rightarrow>
                       let branches_to_check = take 10 branches;
                           s = foldl (scan_branch env project_id)
                                 \<lparr>unique_files = {}, large_file_found = False, issued = sent\<rparr>
                                 branches_to_check
                       in (\<lparr>total_files = int (card (unique_files s)),
                            bs_has_large_file = large_file_found s\<rparr>, issued s)))"

definition get_all_branches_file_stats :: "api \<Rightarrow> int \<Rightarrow> branches_file_stats" where
  "get_all_branches_file_stats env project_id = fst (scan_all_branches env project_id)"

text \<open>The branches the listing returned, when it returned any.\<close>

definition listed_branches :: "api \<Rightarrow> int \<Rightarrow> branch list" where
  "listed_branches env project_id =
     (case branches_get100 env project_id of
        Raised e \<Rightarrow> []
      | Response st h body \<Rightarrow> if st = 200 then get_or body [] else [])"

text \<open>
  What can be said of a sent request: whether it is a size lookup, whether that lookup
  found a file over 100 MiB, and whether it stays within a project and a set of branch
  names (tree pages 1 to 5 of such a branch, size lookups of paths with a listed
  extension on such a branch).
\<close>

definition is_size_lookup :: "request \<Rightarrow> bool" where
  "is_size_lookup r = (case r of FileSize i file_path ref \<Rightarrow> True | _ \<Rightarrow> False)"

definition size_lookup_found_large :: "api \<Rightarrow> request \<Rightarrow> bool" where
  "size_lookup_found_large env r =
     (case r of FileSize i file_path ref \<Rightarrow> file_size_exceeds env i file_path ref | _ \<Rightarrow> False)"

definition request_within :: "int \<Rightarrow> string set \<Rightarrow> request \<Rightarrow> bool" where
  "request_within project_id refs r =
     (case r of
        BranchListing i \<Rightarrow> i = project_id
      | TreePage i ref page \<Rightarrow> i = project_id \<and> ref \<in> refs \<and> 1 \<le> page \<and> page \<le> 5
      | FileSize i file_path ref \<Rightarrow>
          i = project_id \<and> ref \<in> refs \<and> has_large_file_extension file_path)"

text \<open>The names of the first ten branches of the listing.\<close>

definition checked_branch_names :: "api \<Rightarrow> int \<Rightarrow> string set" where
  "checked_branch_names env project_id =
     set (List.map_filter b_name (take 10 (listed_branches env project_id)))"

text \<open>The three facts above, kept along the scan.\<close>

definition scan_invariant :: "api \<Rightarrow> int \<Rightarrow> string set \<Rightarrow> scan_state \<Rightarrow> bool" where
  "scan_invariant env project_id refs s =
     ((\<forall>r\<in>set (issued s). request_within project_id refs r) \<and>
      (large_file_found s \<longleftrightarrow> (\<exists>r\<in>set (issued s). size_lookup_found_large env r)) \<and>
      (\<forall>pre r post. issued s = pre @ r # post \<and> size_lookup_found_large env r
          \<longrightarrow> (\<forall>r'\<in>set post. \<not> is_size_lookup r')))"

text \<open>
  The files the scan may have to size-check, in the order it meets them: the blobs with a
  path and a listed extension, page after page (as far as the pages of a branch are
  fetched), branch after branch; each with the branch it was met on.
\<close>

definition is_candidate :: "tree_item \<Rightarrow> bool" where
  "is_candidate item =
     (item_type item = Some ''blob'' \<and> get_or (item_path item) [] \<noteq> [] \<and>
      has_large_file_extension (get_or (item_path item) []))"

definition page_candidates :: "string \<Rightarrow> tree_item list \<Rightarrow> (string \<times> string) list" where
  "page_candidates branch_name items =
     map (\<lambda>item. (get_or (item_path item) [], branch_name)) (filter is_candidate items)"

function branch_candidates :: "api \<Rightarrow> int \<Rightarrow> string \<Rightarrow> nat \<Rightarrow> (string \<times> string) list" where
  "branch_candidates env project_id branch_name page =
     (if page \<le> 5 then
        (case tree_get env project_id branch_name page of
           Raised e \<Rightarrow> []
         | Response st h body \<Rightarrow>
             if st \<noteq> 200 then []
             else (case body of
                     None \<Rightarrow> []
                   | Some items \<Rightarrow>
                       if items = [] then []
                       else page_candidates branch_name items @
                            (if \<not> has_next_page h then []
                             else branch_candidates env project_id branch_name (page + 1))))
      else [])"
  by pat_completeness auto
termination
  by (relation "measure (\<lambda>(env, project_id, branch_name, page). 6 - page)") auto

declare branch_candidates.simps [simp del]

definition all_candidates :: "api \<Rightarrow> int \<Rightarrow> (string \<times> string) list" where
  "all_candidates env project_id =
     concat (map (\<lambda>b. let name = get_or (b_name b) []
                       in if name = [] then [] else branch_candidates env project_id name 1)
                 (take 10 (listed_branches env project_id)))"

text \<open>
  The candidates of every tree page that was asked for and answered 200 with a list are
  among \<open>cs\<close>.
\<close>

definition pages_covered :: "api \<Rightarrow> (string \<times> string) list \<Rightarrow> scan_state \<Rightarrow> bool" where
  "pages_covered env cs s =
     (\<forall>i ref p h items.
        TreePage i ref p \<in> set (issued s) \<and> tree_get env i ref p = Response 200 h (Some items)
          \<longrightarrow> set (page_candidates ref items) \<subseteq> set cs)"

text \<open>A list up to and including its first element that satisfies \<open>P\<close>.\<close>

fun through_first :: "('a \<Rightarrow> bool) \<Rightarrow> 'a list \<Rightarrow> 'a list" where
  "through_first P [] = []"
| "through_first P (x # xs) = x # (if P x then [] else through_first P xs)"

definition candidate_exceeds :: "api \<Rightarrow> int \<Rightarrow> string \<times> string \<Rightarrow> bool" where
  "candidate_exceeds env project_id c = file_size_exceeds env project_id (fst c) (snd c)"

definition size_lookup_of :: "int \<Rightarrow> string \<times> string \<Rightarrow> request" where
  "size_lookup_of project_id c = FileSize project_id (fst c) (snd c)"

section \<open>Repository statistics\<close>

text \<open>The \<^verbatim>\<open>stats\<close> dictionary: all its keys are set when it is created.\<close>

record repo_stats =
  file_count :: int
  repository_size :: int
  storage_size :: int
  commit_count :: int
  branch_count :: int
  object_count :: int
  all_branches_file_count :: int
  has_large_file :: bool
  exceeds_6gb :: bool
  exceeds_2gb :: bool
  has_pipeline :: bool

text \<open>
  The count an \<^verbatim>\<open>X-Total\<close> header adds in \<^verbatim>\<open>get_repository_object_count\<close>: \<open>Inr n\<close>
  adds \<open>n\<close> (0 when the status is not 200 or the header is missing), \<open>Inl\<close> is an
  exception (the request raised, or the header is not a number).
\<close>

definition total_header_count :: "unit http \<Rightarrow> unit + int" where
  "total_header_count response =
     (case response of
        Raised e \<Rightarrow> Inl ()
      | Response st h b \<Rightarrow>
          if st = 200 \<and> h ''X-Total'' \<noteq> None
          then (case py_int (the (h ''X-Total'')) of None \<Rightarrow> Inl () | Some n \<Rightarrow> Inr n)
          else Inr 0)"

definition get_repository_object_count :: "api \<Rightarrow> int \<Rightarrow> repo_stats \<Rightarrow> int" where
  "get_repository_object_count env project_id existing_stats =
     (let fallback = commit_count existing_stats + file_count existing_stats;
          object_count = 0 + commit_count existing_stats + branch_count existing_stats
      in case total_header_count (tags_head env project_id) of
           Inl u \<Rightarrow> fallback
         | Inr tag_count \<Rightarrow>
             let object_count = object_count + tag_count;
                 file_count = all_branches_file_count existing_stats;
                 estimated_tree_objects = max (file_count div 10) 1;
                 object_count = object_count + (file_count + estimated_tree_objects)
             in (case total_header_count (merge_requests_head env project_id) of
                   Inl u \<Rightarrow> fallback
                 | Inr mr_count \<Rightarrow> object_count + mr_count))"

definition initial_stats :: repo_stats where
  "initial_stats =
     \<lparr>file_count = 0, repository_size = 0, storage_size = 0, commit_count = 0, branch_count = 0,
      object_count = 0, all_branches_file_count = 0, has_large_file = False,
      exceeds_6gb = False, exceeds_2gb = False, has_pipeline = False\<rparr>"

text \<open>The statistics of the project payload written into \<^verbatim>\<open>stats\<close>, when there are any.\<close>

definition apply_statistics :: "repo_stats \<Rightarrow> size_statistics option \<Rightarrow> repo_stats" where
  "apply_statistics stats statistics =
     (case statistics of
        None \<Rightarrow> stats
      | Some st \<Rightarrow>
          let stats = stats\<lparr>repository_size := get_or (st_repository_size st) 0,
                             storage_size := get_or (st_storage_size st) 0,
                             commit_count := get_or (st_commit_count st) 0\<rparr>;
              storage_size_bytes = storage_size stats
          in stats\<lparr>exceeds_2gb := storage_size_bytes > 2 * 1024 * 1024 * 1024,
                    exceeds_6gb := storage_size_bytes > 6 * 1024 * 1024 * 1024\<rparr>)"

text \<open>The four sub-queries that follow the project request, in the order of the source.\<close>

definition collect_sub_queries :: "api \<Rightarrow> int \<Rightarrow> repo_stats \<Rightarrow> repo_stats" where
  "collect_sub_queries env project_id stats =
     (let stats = stats\<lparr>file_count := get_repository_file_count env project_id\<rparr>;
          stats = stats\<lparr>branch_count := get_branch_count env project_id\<rparr>;
          stats = stats\<lparr>has_pipeline := check_for_pipeline_config env project_id\<rparr>;
          all_branches_stats = get_all_branches_file_stats env project_id;
          stats = stats\<lparr>all_branches_file_count := total_files all_branches_stats\<rparr>;
          stats = stats\<lparr>has_large_file := bs_has_large_file all_branches_stats\<rparr>
      in stats\<lparr>object_count := get_repository_object_count env project_id stats\<rparr>)"

definition get_repository_stats_via_api :: "api \<Rightarrow> int \<Rightarrow> repo_stats" where
  "get_repository_stats_via_api env project_id =
     (case project_details env project_id of
        Raised e \<Rightarrow> initial_stats
      | Response st h body \<Rightarrow>
          if st = 200 then
            (case body of
               None \<Rightarrow> initial_stats
             | Some project_data \<Rightarrow>
                 collect_sub_queries env project_id
                   (apply_statistics initial_stats (info_statistics project_data)))
          else collect_sub_queries env project_id initial_stats)"

section \<open>Project filter\<close>

text \<open>
  The filter file as \<^verbatim>\<open>csv.DictReader\<close> shows it: the header row (\<open>None\<close> for an empty
  file) and one dictionary per row.  A cell is \<open>None\<close> where the row is shorter than the
  header, and \<^verbatim>\<open>.strip()\<close> raises on it.
\<close>

type_synonym csv_row = "string \<rightharpoonup> string option"

datatype csv_source =
    NotFound
  | Unreadable
  | Csv "string list option" "csv_row list"

text \<open>The \<^verbatim>\<open>for row in reader\<close> loop; \<open>None\<close> when a row raises.\<close>

fun filter_rows :: "string list \<Rightarrow> csv_row list \<Rightarrow> string set \<Rightarrow> string set option" where
  "filter_rows migrate_repo_values [] projects_to_migrate = Some projects_to_migrate"
| "filter_rows migrate_repo_values (r # rows) projects_to_migrate =
     (case get_or (r ''Migrate Repo'') (Some []) of
        None \<Rightarrow> None
      | Some mv \<Rightarrow>
          (case get_or (r ''Name'') (Some []) of
             None \<Rightarrow> None
           | Some pn \<Rightarrow>
               let migrate_value = strip mv; project_name = strip pn
               in if migrate_value \<in> set migrate_repo_values \<and> project_name \<noteq> []
                  then filter_rows migrate_repo_values rows (insert project_name projects_to_migrate)
                  else filter_rows migrate_repo_values rows projects_to_migrate))"

definition load_project_filter :: "string option \<Rightarrow> string list \<Rightarrow> csv_source \<Rightarrow> string set option" where
  "load_project_filter project_list_file migrate_repo_values file =
     (if get_or project_list_file [] = [] then None
      else (case file of
              NotFound \<Rightarrow> None
            | Unreadable \<Rightarrow> None
            | Csv fieldnames rows \<Rightarrow>
                (case fieldnames of
                   None \<Rightarrow> None
                 | Some names \<Rightarrow>
                     if ''Migrate Repo'' \<notin> set names \<or> ''Name'' \<notin> set names then None
                     else (case filter_rows migrate_repo_values rows {} of
                             None \<Rightarrow> None
                           | Some projects_to_migrate \<Rightarrow>
                               if projects_to_migrate = {} then None
                               else Some projects_to_migrate))))"

definition should_process_project :: "project \<Rightarrow> string set option \<Rightarrow> bool" where
  "should_process_project p project_filter =
     (case project_filter of
        None \<Rightarrow> True
      | Some names \<Rightarrow> p_name p \<in> names \<or> get_or (p_path p) [] \<in> names)"

text \<open>\<^verbatim>\<open>if project_filter is not None: projects = [p for p in projects if ...]\<close>\<close>

definition apply_project_filter :: "string set option \<Rightarrow> project list \<Rightarrow> project list" where
  "apply_project_filter project_filter projects =
     (case project_filter of
        None \<Rightarrow> projects
      | Some names \<Rightarrow> filter (\<lambda>p. should_process_project p project_filter) projects)"

text \<open>A row of the filter file matches when its stripped cell is one of the filter values.\<close>

definition row_matches :: "string list \<Rightarrow> csv_row \<Rightarrow> bool" where
  "row_matches migrate_repo_values r =
     (case get_or (r ''Migrate Repo'') (Some []) of
        None \<Rightarrow> False
      | Some mv \<Rightarrow> strip mv \<in> set migrate_repo_values)"

section \<open>One project record\<close>

definition merge_request_count :: "api \<Rightarrow> int \<Rightarrow> int" where
  "merge_request_count env project_id =
     (case merge_requests_head env project_id of
        Raised e \<Rightarrow> 0
      | Response st h b \<Rightarrow>
          if st = 200 \<and> h ''X-Total'' \<noteq> None
          then get_or (py_int (the (h ''X-Total''))) 0
          else 0)"

text \<open>
  The contributors request is not guarded on its own: \<open>None\<close> is an exception that
  reaches the handler of the project.
\<close>

definition fetch_contributors :: "api \<Rightarrow> int \<Rightarrow> (contributor list \<times> int) option" where
  "fetch_contributors env project_id =
     (case contributors_get env project_id of
        Raised e \<Rightarrow> None
      | Response st h body \<Rightarrow>
          if st = 200 then
            (case body of
               None \<Rightarrow> None
             | Some contributors \<Rightarrow>
                 Some (contributors, sum_list (map (\<lambda>c. get_or (commits c) 0) contributors)))
          else Some ([], 0))"

text \<open>The sizes after the fallback to the statistics of the listing entry.\<close>

definition listing_sizes :: "project \<Rightarrow> int \<times> int" where
  "listing_sizes p =
     (case p_statistics p of
        None \<Rightarrow> (0, 0)
      | Some st \<Rightarrow> (get_or (st_repository_size st) 0, get_or (st_storage_size st) 0))"

definition final_sizes :: "repo_stats \<Rightarrow> project \<Rightarrow> int \<times> int" where
  "final_sizes repo_stats p =
     (if repository_size repo_stats = 0 \<and> storage_size repo_stats = 0
      then listing_sizes p
      else (repository_size repo_stats, storage_size repo_stats))"

definition str_or_na :: "string option \<Rightarrow> pyval" where
  "str_or_na v = (case v of None \<Rightarrow> PyStr ''N/A'' | Some x \<Rightarrow> PyStr x)"

text \<open>
  The record of one project, from the sizes on.  The two conversions to megabytes are
  the only steps here that can raise: \<open>None\<close> is their \<^verbatim>\<open>OverflowError\<close>, which
  reaches the handler of the project.
\<close>

definition project_stats ::
  "project \<Rightarrow> string \<Rightarrow> contributor list \<Rightarrow> int \<Rightarrow> repo_stats \<Rightarrow> int \<Rightarrow> row option" where
  "project_stats p path contributors total_commits repo_stats merge_requests =
     (let is_archived = get_or (p_archived p) False;
          (repository_size, storage_size) = final_sizes repo_stats p;
          exceeds_2gb = storage_size > 2 * 1024 * 1024 * 1024;
          exceeds_6gb = storage_size > 6 * 1024 * 1024 * 1024
      in case bytes_to_mb (Some repository_size) of
           None \<Rightarrow> None
         | Some repository_size_mb \<Rightarrow>
       (case bytes_to_mb (Some storage_size) of
           None \<Rightarrow> None
         | Some total_size_mb \<Rightarrow>
         Some
         [(''id'', PyInt (p_id p)),
          (''group_name'', str_or_na (p_group_name p)),
          (''project_name'', PyStr (p_name p)),
          (''group_path'', str_or_na (p_group_path p)),
          (''path'', PyStr path),
          (''status'', PyStr (if is_archived then ''archived'' else ''active'')),
          (''archived'', PyBool is_archived),
          (''stars'', get_or (p_star_count p) (PyInt 0)),
          (''forks'', get_or (p_forks_count p) (PyInt 0)),
          (''open_issues'', get_or (p_open_issues_count p) (PyInt 0)),
          (''merge_requests'', PyInt merge_requests),
          (''last_activity'', get_or (p_last_activity_at p) (PyStr ''N/A'')),
          (''contributors'', PyInt (int (length contributors))),
          (''total_commits'', PyInt total_commits),
          (''branch_count'', PyInt (branch_count repo_stats)),
          (''file_count'', PyInt (file_count repo_stats)),
          (''all_branches_file_count'', PyInt (all_branches_file_count repo_stats)),
          (''total_objects'', PyInt (object_count repo_stats)),
          (''repository_size_mb'', PyFloat repository_size_mb),
          (''total_size_mb'', PyFloat total_size_mb),
          (''has_large_file_100mb'', PyBool (has_large_file repo_stats)),
          (''exceeds_2gb'', PyBool exceeds_2gb),
          (''exceeds_6gb'', PyBool exceeds_6gb),
          (''pipeline'', PyBool (has_pipeline repo_stats)),
          (''visibility'', get_or (p_visibility p) (PyStr ''N/A'')),
          (''created_at'', get_or (p_created_at p) (PyStr ''N/A'')),
          (''default_branch'', get_or (p_default_branch p) (PyStr ''main'')),
          (''web_url'', get_or (p_web_url p) (PyStr ''N/A''))]))"

text \<open>
  The \<^verbatim>\<open>try\<close> block of the project loop: \<open>None\<close> when it raises and the project goes
  to \<^verbatim>\<open>failed_projects\<close>.
\<close>

definition process_project :: "api \<Rightarrow> project \<Rightarrow> row option" where
  "process_project env p =
     (case fetch_contributors env (p_id p) of
        None \<Rightarrow> None
      | Some (contributors, total_commits) \<Rightarrow>
          let repo_stats = get_repository_stats_via_api env (p_id p);
              merge_requests = merge_request_count env (p_id p)
          in (case p_path_with_namespace p of
                None \<Rightarrow> None
              | Some path \<Rightarrow>
                  project_stats p path contributors total_commits repo_stats merge_requests))"

definition project_fieldnames :: "string list" where
  "project_fieldnames =
     [''id'', ''group_name'', ''project_name'', ''group_path'', ''path'', ''status'', ''archived'',
      ''stars'', ''forks'', ''open_issues'', ''merge_requests'',
      ''last_activity'', ''contributors'', ''total_commits'', ''branch_count'',
      ''file_count'', ''all_branches_file_count'', ''total_objects'',
      ''repository_size_mb'', ''total_size_mb'', ''has_large_file_100mb'',
      ''exceeds_2gb'', ''exceeds_6gb'', ''pipeline'', ''visibility'',
      ''created_at'', ''default_branch'', ''web_url'']"

section \<open>One group record\<close>

definition process_group :: "group_api \<Rightarrow> group \<Rightarrow> row option" where
  "process_group genv g =
     (let project_count = get_group_project_count genv (g_id g);
          subgroup_count = get_subgroup_count genv (g_id g);
          member_count = get_group_member_count genv (g_id g);
          storage_size = (case g_statistics g of None \<Rightarrow> 0 | Some st \<Rightarrow> get_or (st_storage_size st) 0);
          repository_size = (case g_statistics g of None \<Rightarrow> 0 | Some st \<Rightarrow> get_or (st_repository_size st) 0)
      in case g_path g of
           None \<Rightarrow> None
         | Some path \<Rightarrow>
       (case bytes_to_mb (Some storage_size) of
           None \<Rightarrow> None
         | Some storage_size_mb \<Rightarrow>
       (case bytes_to_mb (Some repository_size) of
           None \<Rightarrow> None
         | Some repository_size_mb \<Rightarrow>
             Some [(''id'', PyInt (g_id g)),
                   (''name'', PyStr (g_name g)),
                   (''path'', PyStr path),
                   (''full_path'', PyStr (g_full_path g)),
                   (''description'', get_or (g_description g) (PyStr [])),
                   (''visibility'', get_or (g_visibility g) (PyStr ''N/A'')),
                   (''project_count'', PyInt project_count),
                   (''subgroup_count'', PyInt subgroup_count),
                   (''member_count'', PyInt member_count),
                   (''storage_size_mb'', PyFloat storage_size_mb),
                   (''repository_size_mb'', PyFloat repository_size_mb),
                   (''created_at'', get_or (g_created_at g) (PyStr ''N/A'')),
                   (''parent_id'', get_or (g_parent_id g) (PyStr [])),
                   (''web_url'', get_or (g_web_url g) (PyStr ''N/A''))])))"

section \<open>The two main blocks\<close>

text \<open>
  The token comes from the environment or from the \<^verbatim>\<open>.token\<close> file.  \<open>Inl c\<close> is
  \<^verbatim>\<open>sys.exit(c)\<close> while the file is read (no file, a file that does not parse, any
  other exception); \<open>Inr t\<close> is the value of \<^verbatim>\<open>GITLAB_TOKEN\<close> that reaches the check
  \<^verbatim>\<open>if not GITLAB_TOKEN\<close>.  With a token in the environment the file is read for other
  settings only.
\<close>

datatype token_file = NoTokenFile | BadTokenFile | TokenFile "string option"

definition resolve_token :: "string option \<Rightarrow> token_file \<Rightarrow> int + string option" where
  "resolve_token env_token file =
     (if get_or env_token [] \<noteq> [] then Inr env_token
      else (case file of
              NoTokenFile \<Rightarrow> Inl 1
            | BadTokenFile \<Rightarrow> Inl 1
            | TokenFile t \<Rightarrow> Inr t))"

text \<open>How a run ends: the exit code, and the rows written to the output file if any were.\<close>

record run_result =
  exit_code :: int
  written :: "row list option"

definition exit_with :: "int \<Rightarrow> run_result" where
  "exit_with c = \<lparr>exit_code = c, written = None\<rparr>"

definition write_report :: "row list \<Rightarrow> run_result" where
  "write_report stats = \<lparr>exit_code = 0, written = (if stats = [] then None else Some stats)\<rparr>"

record groups_run =
  gr_env_token :: "string option"
  gr_token_file :: token_file
  gr_groups_api :: "nat \<Rightarrow> nat \<Rightarrow> group list http"
  gr_api :: group_api

text \<open>\<^verbatim>\<open>gitlab-groups.py\<close>; the outer \<open>None\<close> is a listing loop that ran out of budget.\<close>

definition main_groups :: "nat \<Rightarrow> groups_run \<Rightarrow> run_result option" where
  "main_groups fuel r =
     (case resolve_token (gr_env_token r) (gr_token_file r) of
        Inl c \<Rightarrow> Some (exit_with c)
      | Inr token \<Rightarrow>
          if get_or token [] = [] then Some (exit_with 1)
          else (case fetch_all_groups fuel (gr_groups_api r) of
                  None \<Rightarrow> None
                | Some None \<Rightarrow> Some (exit_with 1)
                | Some (Some groups) \<Rightarrow>
                    if groups = [] then Some (exit_with 0)
                    else Some (write_report (List.map_filter (process_group (gr_api r)) groups))))"

text \<open>The loop over the groups that gathers their projects; a failed listing skips the group.\<close>

definition tag_project :: "group \<Rightarrow> project \<Rightarrow> project" where
  "tag_project g p = p\<lparr>p_group_name := Some (g_name g), p_group_path := Some (g_full_path g)\<rparr>"

fun collect_projects ::
  "nat \<Rightarrow> (string \<Rightarrow> nat \<Rightarrow> nat \<Rightarrow> project list http) \<Rightarrow> group list \<Rightarrow> project list \<Rightarrow> project list option" where
  "collect_projects fuel projects_api [] all_projects = Some all_projects"
| "collect_projects fuel projects_api (g # groups) all_projects =
     (case fetch_all_projects fuel projects_api (g_full_path g) of
        None \<Rightarrow> None
      | Some None \<Rightarrow> collect_projects fuel projects_api groups all_projects
      | Some (Some projects) \<Rightarrow>
          collect_projects fuel projects_api groups (all_projects @ map (tag_project g) projects))"

record details_run =
  dr_env_token :: "string option"
  dr_token_file :: token_file
  dr_project_list_file :: "string option"
  dr_migrate_repo_values :: "string list"
  dr_filter_file :: csv_source
  dr_groups_api :: "nat \<Rightarrow> nat \<Rightarrow> group list http"
  dr_projects_api :: "string \<Rightarrow> nat \<Rightarrow> nat \<Rightarrow> project list http"
  dr_api :: api

text \<open>The projects that reach the statistics loop, once the listings have returned.\<close>

definition projects_to_process :: "details_run \<Rightarrow> project list \<Rightarrow> project list" where
  "projects_to_process r all_projects =
     apply_project_filter
       (load_project_filter (dr_project_list_file r) (dr_migrate_repo_values r) (dr_filter_file r))
       all_projects"

text \<open>
  The statements of \<^verbatim>\<open>gitlab-details.py\<close> in the order they are written: the
  configuration section, then the main block.
\<close>

definition details_statements :: "nat \<Rightarrow> details_run \<Rightarrow> run_result option" where
  "details_statements fuel r =
     (case resolve_token (dr_env_token r) (dr_token_file r) of
        Inl c \<Rightarrow> Some (exit_with c)
      | Inr token \<Rightarrow>
          if get_or token [] = [] then Some (exit_with 1)
          else (case fetch_all_groups fuel (dr_groups_api r) of
                  None \<Rightarrow> None
                | Some None \<Rightarrow> Some (exit_with 1)
                | Some (Some groups) \<Rightarrow>
                    if groups = [] then Some (exit_with 0)
                    else (case collect_projects fuel (dr_projects_api r) groups [] of
                            None \<Rightarrow> None
                          | Some all_projects \<Rightarrow>
                              let projects = projects_to_process r all_projects
                              in if projects = [] then Some (exit_with 0)
                                 else Some (write_report
                                              (List.map_filter (process_project (dr_api r)) projects)))))"

text \<open>
  Before it runs anything the interpreter compiles the whole file.  In
  \<^verbatim>\<open>gitlab-details.py\<close> the \<^verbatim>\<open>try\<close> at line 100 (the branch that reads the other
  settings when the token came from the environment) has neither an \<^verbatim>\<open>except\<close> nor a
  \<^verbatim>\<open>finally\<close> clause: the file is rejected with a \<^verbatim>\<open>SyntaxError\<close> reported at line 137,
  none of its statements runs, and the process exits with status 1.
  \<^verbatim>\<open>gitlab-groups.py\<close> compiles.
\<close>

datatype compiled = Compiled | SyntaxError nat

definition details_source :: compiled where
  "details_source = SyntaxError 137"

definition run_script :: "compiled \<Rightarrow> run_result option \<Rightarrow> run_result option" where
  "run_script source statements =
     (case source of
        SyntaxError line \<Rightarrow> Some (exit_with 1)
      | Compiled \<Rightarrow> statements)"

text \<open>\<^verbatim>\<open>python gitlab-details.py\<close>.\<close>

definition main_details :: "nat \<Rightarrow> details_run \<Rightarrow> run_result option" where
  "main_details fuel r = run_script details_source (details_statements fuel r)"

section \<open>Sample data\<close>

text \<open>A server that answers nothing: every request times out.\<close>

definition silent_api :: api where
  "silent_api =
     \<lparr>project_details = (\<lambda>i. Raised Timeout),
      project_plain = (\<lambda>i. Raised Timeout),
      branches_head = (\<lambda>i. Raised Timeout),
      branches_get1 = (\<lambda>i. Raised Timeout),
      branches_get100 = (\<lambda>i. Raised Timeout),
      commits_head = (\<lambda>i b. Raised Timeout),
      search_head = (\<lambda>i. Raised Timeout),
      tree_get = (\<lambda>i b n. Raised Timeout),
      file_head = (\<lambda>i f b. Raised Timeout),
      tags_head = (\<lambda>i. Raised Timeout),
      merge_requests_head = (\<lambda>i. Raised Timeout),
      contributors_get = (\<lambda>i. Raised Timeout)\<rparr>"

definition silent_group_api :: group_api where
  "silent_group_api =
     \<lparr>group_projects_head = (\<lambda>i. Raised Timeout),
      group_projects_get1 = (\<lambda>i. Raised Timeout),
      subgroups_head = (\<lambda>i. Raised Timeout),
      subgroups_get1 = (\<lambda>i. Raised Timeout),
      members_head = (\<lambda>i. Raised Timeout),
      members_get1 = (\<lambda>i. Raised Timeout)\<rparr>"

definition demo_project :: project where
  "demo_project =
     \<lparr>p_id = 1, p_name = ''app'', p_path = Some ''app'',
      p_path_with_namespace = Some ''team/app'', p_archived = None,
      p_default_branch = None, p_star_count = None, p_forks_count = None,
      p_open_issues_count = None, p_last_activity_at = None, p_visibility = None,
      p_created_at = None, p_web_url = None,
      p_statistics = Some \<lparr>st_repository_size = Some 7, st_storage_size = Some 9,
                             st_commit_count = None\<rparr>,
      p_group_name = Some ''team'', p_group_path = Some ''team''\<rparr>"

definition demo_group :: group where
  "demo_group =
     \<lparr>g_id = 10, g_name = ''team'', g_full_path = ''team'', g_path = Some ''team'',
      g_description = None, g_visibility = None, g_created_at = None, g_parent_id = None,
      g_web_url = None, g_statistics = None\<rparr>"

text \<open>Two listings that fail part-way: a timeout on the third page, a 500 on the second.\<close>

definition timeout_on_third :: "nat \<Rightarrow> nat \<Rightarrow> nat list http" where
  "timeout_on_third per_page page =
     (if page < 3 then Response 200 [''X-Next-Page'' \<mapsto> ''next''] (Some [page]) else Raised Timeout)"

definition error_on_second :: "string \<Rightarrow> nat \<Rightarrow> nat \<Rightarrow> nat list http" where
  "error_on_second group_name per_page page =
     (if page < 2 then Response 200 [''X-Next-Page'' \<mapsto> ''2''] (Some [page, page])
      else Response 500 Map.empty None)"

text \<open>Whether a token is available once the configuration section has run.\<close>

definition token_resolved :: "string option \<Rightarrow> token_file \<Rightarrow> bool" where
  "token_resolved env_token file =
     (case resolve_token env_token file of Inl c \<Rightarrow> False | Inr t \<Rightarrow> get_or t [] \<noteq> [])"

text \<open>A filter file none of whose rows is marked for migration.\<close>

definition demo_filter_rows :: "csv_row list" where
  "demo_filter_rows =
     [[''Name'' \<mapsto> Some ''app'', ''Migrate Repo'' \<mapsto> Some ''Skip''],
      [''Name'' \<mapsto> Some ''lib'', ''Migrate Repo'' \<mapsto> Some '' Later '']]"

definition demo_run :: details_run where
  "demo_run =
     \<lparr>dr_env_token = Some ''glpat-0123456789'', dr_token_file = NoTokenFile,
      dr_project_list_file = Some ''projects.csv'', dr_migrate_repo_values = [''Migrate''],
      dr_filter_file = Csv (Some [''Name'', ''Migrate Repo'']) demo_filter_rows,
      dr_groups_api = paged_listing [demo_group],
      dr_projects_api = (\<lambda>g. paged_listing []),
      dr_api = silent_api\<rparr>"

definition demo_groups_run :: groups_run where
  "demo_groups_run =
     \<lparr>gr_env_token = Some ''glpat-0123456789'', gr_token_file = NoTokenFile,
      gr_groups_api = paged_listing [], gr_api = silent_group_api\<rparr>"

text \<open>A server that reports 3 tags and 4 merge requests and nothing else.\<close>

definition counting_api :: api where
  "counting_api =
     silent_api\<lparr>tags_head := (\<lambda>i. Response 200 [''X-Total'' \<mapsto> ''3''] None),
                 merge_requests_head := (\<lambda>i. Response 200 [''X-Total'' \<mapsto> ''4''] None)\<rparr>"

definition demo_stats :: repo_stats where
  "demo_stats =
     initial_stats\<lparr>commit_count := 5, branch_count := 2, file_count := 20,
                    all_branches_file_count := 25\<rparr>"

text \<open>
  A repository with two branches; \<^verbatim>\<open>main\<close> holds a text file and two archives, the first
  of them one byte over 100 MiB.  \<open>at_threshold_api\<close> is the same with that file at exactly
  100 MiB, \<open>many_branches_api\<close> a repository of twelve branches whose trees do not answer.
\<close>

definition archive_api :: api where
  "archive_api =
     silent_api\<lparr>
       branches_get100 := (\<lambda>i. Response 200 Map.empty
                                  (Some [\<lparr>b_name = Some ''main''\<rparr>, \<lparr>b_name = Some ''dev''\<rparr>])),
       tree_get := (\<lambda>i ref page.
                      if ref = ''main'' \<and> page = 1
                      then Response 200 Map.empty
                             (Some [\<lparr>item_type = Some ''blob'', item_path = Some ''README.md''\<rparr>,
                                    \<lparr>item_type = Some ''blob'', item_path = Some ''dist/App.ZIP''\<rparr>,
                                    \<lparr>item_type = Some ''blob'', item_path = Some ''disk.iso''\<rparr>])
                      else Raised Timeout),
       file_head := (\<lambda>i file_path ref.
                       if file_path = ''dist/App.ZIP''
                       then Response 200 [''X-Gitlab-Size'' \<mapsto> ''104857601''] None
                       else Response 404 Map.empty None)\<rparr>"

definition at_threshold_api :: api where
  "at_threshold_api =
     archive_api\<lparr>
       file_head := (\<lambda>i file_path ref.
                       if file_path = ''dist/App.ZIP''
                       then Response 200 [''X-Gitlab-Size'' \<mapsto> ''104857600''] None
                       else Response 404 Map.empty None)\<rparr>"

definition many_branches_api :: api where
  "many_branches_api =
     silent_api\<lparr>
       branches_get100 := (\<lambda>i. Response 200 Map.empty
                                  (Some (map (\<lambda>n. \<lparr>b_name = Some (show_nat n)\<rparr>) [0 ..< 12])))\<rparr>"


text \<open>A run whose filter file selects a project that no group holds.\<close>

definition selective_run :: details_run where
  "selective_run =
     demo_run\<lparr>
       dr_filter_file := Csv (Some [''Name'', ''Migrate Repo''])
                           [[''Name'' \<mapsto> Some ''other'', ''Migrate Repo'' \<mapsto> Some ''Migrate'']],
       dr_projects_api := (\<lambda>g. paged_listing [demo_project])\<rparr>"




section \<open>Properties of the listing fetch\<close>

lemma fetch_pages_fail_here:
  "page_fails (srv page) \<Longrightarrow> fetch_pages (Suc fuel) srv page acc = Some None"
  by (auto simp: page_fails_def split: http.splits)

lemma fetch_pages_continue:
  "page_continues (srv page) \<Longrightarrow>
   fetch_pages (Suc fuel) srv page acc = fetch_pages fuel srv (page + 1) (acc @ page_items (srv page))"
  by (auto simp: page_continues_def page_ok_def page_items_def split: http.splits option.splits)

lemma fetch_pages_last:
  "page_last (srv page) \<Longrightarrow>
   fetch_pages (Suc fuel) srv page acc = Some (Some (acc @ page_items (srv page)))"
  by (auto simp: page_last_def page_ok_def page_items_def split: http.splits option.splits)

lemma fetch_pages_stuck:
  "\<not> page_continues (srv page) \<Longrightarrow> \<not> page_last (srv page) \<Longrightarrow>
   fetch_pages (Suc fuel) srv page acc = Some None"
  by (auto simp: page_continues_def page_last_def page_ok_def page_items_def split: http.splits option.splits)

lemma continues_not_last: "page_continues r \<Longrightarrow> \<not> page_last r"
  by (auto simp: page_continues_def page_last_def split: http.splits)

lemma continues_not_fails: "page_continues r \<Longrightarrow> \<not> page_fails r"
  by (auto simp: page_continues_def page_fails_def page_ok_def split: http.splits)

lemma fetch_pages_fails_after:
  "(\<forall>q. page \<le> q \<and> q < page + n \<longrightarrow> page_continues (srv q)) \<Longrightarrow>
   page_fails (srv (page + n)) \<Longrightarrow> n < fuel \<Longrightarrow>
   fetch_pages fuel srv page acc = Some None"
proof (induction n arbitrary: fuel page acc)
  case 0
  then obtain f where "fuel = Suc f" by (cases fuel) auto
  with 0 show ?case by (simp add: fetch_pages_fail_here del: fetch_pages.simps)
next
  case (Suc n)
  then obtain f where f: "fuel = Suc f" by (cases fuel) auto
  have c: "page_continues (srv page)" using Suc.prems(1) by simp
  have "fetch_pages f srv (page + 1) (acc @ page_items (srv page)) = Some None"
  proof (rule Suc.IH)
    show "\<forall>q. page + 1 \<le> q \<and> q < page + 1 + n \<longrightarrow> page_continues (srv q)"
      using Suc.prems(1) by simp
    show "page_fails (srv (page + 1 + n))" using Suc.prems(2) by simp
    show "n < f" using Suc.prems(3) f by simp
  qed
  then show ?case using f c by (simp add: fetch_pages_continue del: fetch_pages.simps)
qed

lemma pages_concat_Suc:
  "pages_concat srv page (Suc n) = page_items (srv page) @ pages_concat srv (page + 1) n"
proof -
  have "[page ..< page + Suc n] = page # [page + 1 ..< page + 1 + n]"
    by (subst upt_rec) simp
  then show ?thesis by (simp add: pages_concat_def)
qed

lemma pages_concat_0: "pages_concat srv page 0 = []"
  by (simp add: pages_concat_def)

lemma fetch_pages_succeeds_after:
  "(\<forall>q. page \<le> q \<and> q < page + n \<longrightarrow> page_continues (srv q)) \<Longrightarrow>
   page_last (srv (page + n)) \<Longrightarrow> n < fuel \<Longrightarrow>
   fetch_pages fuel srv page acc = Some (Some (acc @ pages_concat srv page (Suc n)))"
proof (induction n arbitrary: fuel page acc)
  case 0
  then obtain f where "fuel = Suc f" by (cases fuel) auto
  with 0 show ?case by (simp add: fetch_pages_last pages_concat_Suc pages_concat_0 del: fetch_pages.simps)
next
  case (Suc n)
  then obtain f where f: "fuel = Suc f" by (cases fuel) auto
  have c: "page_continues (srv page)" using Suc.prems(1) by simp
  have "fetch_pages f srv (page + 1) (acc @ page_items (srv page))
        = Some (Some ((acc @ page_items (srv page)) @ pages_concat srv (page + 1) (Suc n)))"
  proof (rule Suc.IH)
    show "\<forall>q. page + 1 \<le> q \<and> q < page + 1 + n \<longrightarrow> page_continues (srv q)"
      using Suc.prems(1) by simp
    show "page_last (srv (page + 1 + n))" using Suc.prems(2) by simp
    show "n < f" using Suc.prems(3) f by simp
  qed
  then show ?case using f c
    by (simp add: fetch_pages_continue pages_concat_Suc[of srv page "Suc n"] del: fetch_pages.simps)
qed

lemma fetch_pages_Some_D:
  "fetch_pages fuel srv page acc = Some (Some xs) \<Longrightarrow>
   \<exists>n<fuel. (\<forall>q. page \<le> q \<and> q < page + n \<longrightarrow> page_continues (srv q)) \<and>
            page_last (srv (page + n)) \<and> xs = acc @ pages_concat srv page (Suc n)"
proof (induction fuel arbitrary: page acc)
  case 0
  then show ?case by simp
next
  case (Suc fuel)
  show ?case
  proof (cases "page_continues (srv page)")
    case True
    with Suc.prems have "fetch_pages fuel srv (page + 1) (acc @ page_items (srv page)) = Some (Some xs)"
      by (simp add: fetch_pages_continue del: fetch_pages.simps)
    from Suc.IH[OF this] obtain n where n: "n < fuel"
      "\<forall>q. page + 1 \<le> q \<and> q < page + 1 + n \<longrightarrow> page_continues (srv q)"
      "page_last (srv (page + 1 + n))"
      "xs = (acc @ page_items (srv page)) @ pages_concat srv (page + 1) (Suc n)" by blast
    have "\<forall>q. page \<le> q \<and> q < page + Suc n \<longrightarrow> page_continues (srv q)"
    proof (intro allI impI)
      fix q assume q: "page \<le> q \<and> q < page + Suc n"
      show "page_continues (srv q)"
      proof (cases "q = page")
        case True with \<open>page_continues (srv page)\<close> show ?thesis by simp
      next
        case False with q n(2) show ?thesis by simp
      qed
    qed
    moreover have "page_last (srv (page + Suc n))" using n(3) by simp
    moreover have "xs = acc @ pages_concat srv page (Suc (Suc n))"
      using n(4) by (simp add: pages_concat_Suc[of srv page "Suc n"])
    moreover have "Suc n < Suc fuel" using n(1) by simp
    ultimately show ?thesis by blast
  next
    case False
    show ?thesis
    proof (cases "page_last (srv page)")
      case True
      with Suc.prems have "xs = acc @ page_items (srv page)"
        by (simp add: fetch_pages_last del: fetch_pages.simps)
      then have "xs = acc @ pages_concat srv page (Suc 0)"
        by (simp add: pages_concat_Suc pages_concat_0)
      with True show ?thesis by (intro exI[of _ 0]) auto
    next
      case nl: False
      with False Suc.prems show ?thesis by (simp add: fetch_pages_stuck del: fetch_pages.simps)
    qed
  qed
qed

lemma fetch_pages_Some_iff:
  "fetch_pages fuel srv page acc = Some (Some xs) \<longleftrightarrow>
   (\<exists>n<fuel. (\<forall>q. page \<le> q \<and> q < page + n \<longrightarrow> page_continues (srv q)) \<and>
            page_last (srv (page + n)) \<and> xs = acc @ pages_concat srv page (Suc n))"
  using fetch_pages_Some_D[of fuel srv page acc xs] fetch_pages_succeeds_after[of page _ srv fuel acc]
  by blast

lemma show_nat_nonempty: "show_nat n \<noteq> []"
  by (subst show_nat.simps) simp

lemma has_next_paged:
  "has_next_page [''X-Next-Page'' \<mapsto> (if c then show_nat p else [])] = c"
  by (simp add: has_next_page_def show_nat_nonempty)

lemma take_take_drop: "take a xs @ take k (drop a xs) = take (a + k) xs"
  by (simp add: take_add)

lemma paged_listing_Suc:
  "paged_listing xs k (Suc m) =
     Response 200 [''X-Next-Page'' \<mapsto> (if Suc m * k < length xs then show_nat (Suc m + 1) else [])]
       (Some (take k (drop (m * k) xs)))"
  by (simp add: paged_listing_def)

lemma fetch_paged_listing_from:
  "0 < k \<Longrightarrow> m * k \<le> length xs \<Longrightarrow> length xs - m * k < fuel \<Longrightarrow>
   fetch_pages fuel (paged_listing xs k) (Suc m) (take (m * k) xs) = Some (Some xs)"
proof (induction fuel arbitrary: m)
  case 0
  then show ?case by simp
next
  case (Suc fuel)
  let ?items = "take k (drop (m * k) xs)"
  show ?case
  proof (cases "?items = []")
    case True
    with Suc.prems have "length xs \<le> m * k" by simp
    with True Suc.prems show ?thesis
      by (simp add: paged_listing_Suc)
  next
    case False
    then have lt: "m * k < length xs" by simp
    show ?thesis
    proof (cases "Suc m * k < length xs")
      case True
      have "fetch_pages fuel (paged_listing xs k) (Suc (Suc m)) (take (Suc m * k) xs) = Some (Some xs)"
      proof (rule Suc.IH)
        show "0 < k" by fact
        show "Suc m * k \<le> length xs" using True by simp
        show "length xs - Suc m * k < fuel" using Suc.prems True by simp
      qed
      moreover have "take (m * k) xs @ ?items = take (Suc m * k) xs"
        by (simp add: take_take_drop add.commute)
      ultimately show ?thesis using False True
        by (simp add: paged_listing_Suc has_next_page_def show_nat_nonempty)
    next
      case nl: False
      have "take (m * k) xs @ ?items = take (Suc m * k) xs"
        by (simp add: take_take_drop add.commute)
      also have "\<dots> = xs" using nl by simp
      finally show ?thesis using False nl
        by (simp add: paged_listing_Suc has_next_page_def)
    qed
  qed
qed

lemma fetch_paged_listing:
  "0 < k \<Longrightarrow> length xs < fuel \<Longrightarrow> fetch_pages fuel (paged_listing xs k) 1 [] = Some (Some xs)"
  using fetch_paged_listing_from[of k 0 xs fuel] by simp

text \<open>
  C1: when the pages before page \<open>n + 1\<close> were all taken and the request for page
  \<open>n + 1\<close> raises (a timeout, a connection error, any exception) or answers with a
  status other than 200, \<^verbatim>\<open>fetch_all_groups\<close> and \<^verbatim>\<open>fetch_all_projects\<close> return the
  failure signal \<open>None\<close>, whatever \<open>n\<close> is: the items accumulated so far are dropped.
\<close>

theorem listing_failure_returns_None:
  "((\<forall>q. 1 \<le> q \<and> q \<le> n \<longrightarrow> page_continues (groups_api 50 q)) \<and>
    page_fails (groups_api 50 (Suc n)) \<and> n < fuel
      \<longrightarrow> fetch_all_groups fuel groups_api = Some None) \<and>
   ((\<forall>q. 1 \<le> q \<and> q \<le> m \<longrightarrow> page_continues (projects_api group_name 100 q)) \<and>
    page_fails (projects_api group_name 100 (Suc m)) \<and> m < fuel
      \<longrightarrow> fetch_all_projects fuel projects_api group_name = Some None)"
proof (intro conjI impI)
  assume a: "(\<forall>q. 1 \<le> q \<and> q \<le> n \<longrightarrow> page_continues (groups_api 50 q)) \<and>
    page_fails (groups_api 50 (Suc n)) \<and> n < fuel"
  then have "\<forall>q. 1 \<le> q \<and> q < 1 + n \<longrightarrow> page_continues (groups_api 50 q)" by simp
  moreover have "page_fails (groups_api 50 (1 + n))" using a by simp
  ultimately show "fetch_all_groups fuel groups_api = Some None"
    unfolding fetch_all_groups_def using a by (intro fetch_pages_fails_after[where n = n]) simp_all
next
  assume a: "(\<forall>q. 1 \<le> q \<and> q \<le> m \<longrightarrow> page_continues (projects_api group_name 100 q)) \<and>
    page_fails (projects_api group_name 100 (Suc m)) \<and> m < fuel"
  then have "\<forall>q. 1 \<le> q \<and> q < 1 + m \<longrightarrow> page_continues (projects_api group_name 100 q)" by simp
  moreover have "page_fails (projects_api group_name 100 (1 + m))" using a by simp
  ultimately show "fetch_all_projects fuel projects_api group_name = Some None"
    unfolding fetch_all_projects_def using a by (intro fetch_pages_fails_after[where n = m]) simp_all
qed

theorem listing_failure_witness:
  "page_continues (timeout_on_third 50 1) \<and> page_continues (timeout_on_third 50 2) \<and>
   page_fails (timeout_on_third 50 3) \<and>
   fetch_all_groups 3 timeout_on_third = Some None \<and>
   page_continues (error_on_second ''team'' 100 1) \<and> page_fails (error_on_second ''team'' 100 2) \<and>
   fetch_all_projects 2 error_on_second ''team'' = Some None"
proof -
  have c1: "page_continues (timeout_on_third 50 1)" and c2: "page_continues (timeout_on_third 50 2)"
    and f3: "page_fails (timeout_on_third 50 3)"
    by (simp_all add: timeout_on_third_def page_continues_def page_ok_def page_items_def
          page_fails_def has_next_page_def)
  have d1: "page_continues (error_on_second ''team'' 100 1)"
    and e2: "page_fails (error_on_second ''team'' 100 2)"
    by (simp_all add: error_on_second_def page_continues_def page_ok_def page_items_def
          page_fails_def has_next_page_def)
  have g: "\<forall>q. 1 \<le> q \<and> q \<le> 2 \<longrightarrow> page_continues (timeout_on_third 50 q)"
  proof (intro allI impI)
    fix q :: nat assume "1 \<le> q \<and> q \<le> 2"
    then have "q = 1 \<or> q = 2" by arith
    then show "page_continues (timeout_on_third 50 q)" using c1 c2 by auto
  qed
  have p: "\<forall>q. 1 \<le> q \<and> q \<le> 1 \<longrightarrow> page_continues (error_on_second ''team'' 100 q)"
  proof (intro allI impI)
    fix q :: nat assume "1 \<le> q \<and> q \<le> 1"
    then have "q = 1" by arith
    then show "page_continues (error_on_second ''team'' 100 q)" using d1 by simp
  qed
  have f3': "page_fails (timeout_on_third 50 (Suc 2))" using f3 by (simp add: numeral_3_eq_3)
  have e2': "page_fails (error_on_second ''team'' 100 (Suc 1))" using e2 by (simp add: numeral_2_eq_2)
  have n: "(2::nat) < 3" "(1::nat) < 2" by simp_all
  have "fetch_all_groups 3 timeout_on_third = Some None"
    using listing_failure_returns_None[of 2 timeout_on_third 3 0 "\<lambda>g k q. Raised Timeout" "[]"] g f3' n
    by blast
  moreover have "fetch_all_projects 2 error_on_second ''team'' = Some None"
    using listing_failure_returns_None[of 0 "\<lambda>k q. Raised Timeout" 2 1 error_on_second "''team''"] p e2' n
    by blast
  ultimately show ?thesis using c1 c2 f3 d1 e2 by blast
qed

text \<open>
  C7: a listing fetch returns a list exactly when some page \<open>n + 1\<close> is the first that
  is empty or carries no next-page indicator, every page before it being a non-empty 200
  with the indicator; the list is then the items of pages 1 to \<open>n + 1\<close>, concatenated in
  page order.  Against a server that re-chunks one ordered collection, the result is that
  collection for every page size (50 and 100 included).
\<close>

theorem pagination_concatenates_pages:
  "(fetch_all_groups fuel groups_api = Some (Some gs) \<longleftrightarrow>
      (\<exists>n<fuel. (\<forall>q. 1 \<le> q \<and> q \<le> n \<longrightarrow> page_continues (groups_api 50 q)) \<and>
                page_last (groups_api 50 (Suc n)) \<and>
                gs = pages_concat (groups_api 50) 1 (Suc n))) \<and>
   (fetch_all_projects fuel projects_api group_name = Some (Some ps) \<longleftrightarrow>
      (\<exists>n<fuel. (\<forall>q. 1 \<le> q \<and> q \<le> n \<longrightarrow> page_continues (projects_api group_name 100 q)) \<and>
                page_last (projects_api group_name 100 (Suc n)) \<and>
                ps = pages_concat (projects_api group_name 100) 1 (Suc n))) \<and>
   (0 < per_page \<and> length coll < fuel \<longrightarrow>
      fetch_pages fuel (paged_listing coll per_page) 1 [] = Some (Some coll)) \<and>
   (length coll < fuel \<longrightarrow> fetch_all_groups fuel (paged_listing coll) = Some (Some coll)) \<and>
   (length coll < fuel \<longrightarrow>
      fetch_all_projects fuel (\<lambda>g. paged_listing coll) group_name = Some (Some coll))"
proof -
  have r: "(\<forall>q. 1 \<le> q \<and> q < 1 + n \<longrightarrow> P q) \<longleftrightarrow> (\<forall>q. 1 \<le> q \<and> q \<le> n \<longrightarrow> P q)"
    for n :: nat and P
    by (auto simp: less_Suc_eq_le)
  have a: "fetch_all_groups fuel groups_api = Some (Some gs) \<longleftrightarrow>
      (\<exists>n<fuel. (\<forall>q. 1 \<le> q \<and> q \<le> n \<longrightarrow> page_continues (groups_api 50 q)) \<and>
                page_last (groups_api 50 (Suc n)) \<and>
                gs = pages_concat (groups_api 50) 1 (Suc n))"
    unfolding fetch_all_groups_def fetch_pages_Some_iff r by simp
  have b: "fetch_all_projects fuel projects_api group_name = Some (Some ps) \<longleftrightarrow>
      (\<exists>n<fuel. (\<forall>q. 1 \<le> q \<and> q \<le> n \<longrightarrow> page_continues (projects_api group_name 100 q)) \<and>
                page_last (projects_api group_name 100 (Suc n)) \<and>
                ps = pages_concat (projects_api group_name 100) 1 (Suc n))"
    unfolding fetch_all_projects_def fetch_pages_Some_iff r by simp
  have c: "0 < per_page \<and> length coll < fuel \<longrightarrow>
      fetch_pages fuel (paged_listing coll per_page) 1 [] = Some (Some coll)"
    using fetch_paged_listing[of per_page coll fuel] by blast
  have d: "length coll < fuel \<longrightarrow> fetch_all_groups fuel (paged_listing coll) = Some (Some coll)"
    unfolding fetch_all_groups_def using fetch_paged_listing[of 50 coll fuel] by simp
  have e: "length coll < fuel \<longrightarrow>
      fetch_all_projects fuel (\<lambda>g. paged_listing coll) group_name = Some (Some coll)"
    unfolding fetch_all_projects_def using fetch_paged_listing[of 100 coll fuel] by simp
  from a b c d e show ?thesis by blast
qed

theorem pagination_witness:
  "fetch_pages 6 (paged_listing [1, 2, 3, 4, 5 :: nat] 2) 1 [] = Some (Some [1, 2, 3, 4, 5]) \<and>
   fetch_pages 6 (paged_listing [1, 2, 3, 4, 5 :: nat] 3) 1 [] = Some (Some [1, 2, 3, 4, 5]) \<and>
   fetch_all_groups 6 (paged_listing [1, 2, 3, 4, 5 :: nat]) = Some (Some [1, 2, 3, 4, 5]) \<and>
   fetch_all_projects 6 (\<lambda>g. paged_listing [1, 2, 3, 4, 5 :: nat]) ''team'' = Some (Some [1, 2, 3, 4, 5])"
proof -
  note t2 = pagination_concatenates_pages[of 6 "paged_listing [1, 2, 3, 4, 5 :: nat]" "[]"
      "\<lambda>g. paged_listing [1, 2, 3, 4, 5 :: nat]" "''team''" "[]" 2 "[1, 2, 3, 4, 5 :: nat]"]
  note t3 = pagination_concatenates_pages[of 6 "paged_listing [1, 2, 3, 4, 5 :: nat]" "[]"
      "\<lambda>g. paged_listing [1, 2, 3, 4, 5 :: nat]" "''team''" "[]" 3 "[1, 2, 3, 4, 5 :: nat]"]
  have h2: "0 < (2::nat) \<and> length [1, 2, 3, 4, 5 :: nat] < 6" by simp
  have h3: "0 < (3::nat) \<and> length [1, 2, 3, 4, 5 :: nat] < 6" by simp
  have l: "length [1, 2, 3, 4, 5 :: nat] < 6" by simp
  from t2 h2 have a: "fetch_pages 6 (paged_listing [1, 2, 3, 4, 5 :: nat] 2) 1 [] = Some (Some [1, 2, 3, 4, 5])"
    by blast
  from t3 h3 have b: "fetch_pages 6 (paged_listing [1, 2, 3, 4, 5 :: nat] 3) 1 [] = Some (Some [1, 2, 3, 4, 5])"
    by blast
  from t2 l have c: "fetch_all_groups 6 (paged_listing [1, 2, 3, 4, 5 :: nat]) = Some (Some [1, 2, 3, 4, 5])"
    by blast
  from t2 l have d: "fetch_all_projects 6 (\<lambda>g. paged_listing [1, 2, 3, 4, 5 :: nat]) ''team'' = Some (Some [1, 2, 3, 4, 5])"
    by blast
  from a b c d show ?thesis by blast
qed

section \<open>Properties of the byte conversion\<close>

lemma bit_len_bounds: "0 < n \<Longrightarrow> 2 ^ (bit_len n - 1) \<le> n \<and> n < 2 ^ bit_len n"
proof (induction n rule: bit_len.induct)
  case (1 n)
  show ?case
  proof (cases "n div 2 = 0")
    case True
    with 1 have "n = 1" by (cases n) auto
    then show ?thesis by (simp add: bit_len.simps)
  next
    case False
    then have ih: "2 ^ (bit_len (n div 2) - 1) \<le> n div 2" "n div 2 < 2 ^ bit_len (n div 2)"
      using 1 by auto
    have pos: "0 < bit_len (n div 2)" using False by (subst bit_len.simps) simp
    have bl: "bit_len n = Suc (bit_len (n div 2))" using 1 by (subst bit_len.simps) simp
    have "2 ^ (bit_len n - 1) = 2 * 2 ^ (bit_len (n div 2) - 1)"
      using pos bl by (cases "bit_len (n div 2)") simp_all
    also have "\<dots> \<le> 2 * (n div 2)" using ih(1) by simp
    also have "\<dots> \<le> n" by simp
    finally have lo: "2 ^ (bit_len n - 1) \<le> n" .
    have "n < 2 * (n div 2) + 2" by presburger
    also have "\<dots> \<le> 2 * 2 ^ bit_len (n div 2)" using ih(2) by simp
    finally have "n < 2 ^ bit_len n" using bl by simp
    with lo show ?thesis by simp
  qed
qed

lemma bit_len_pos: "0 < n \<Longrightarrow> 0 < bit_len n"
  by (subst bit_len.simps) simp

lemma floor_log2_bounds:
  assumes "0 < q"
  shows "2 powi (floor_log2 q) \<le> q \<and> q < 2 powi (floor_log2 q + 1)"
proof -
  obtain a b where ab: "quotient_of q = (a, b)" by (cases "quotient_of q")
  then have b: "0 < b" and q: "q = of_int a / of_int b"
    using quotient_of_denom_pos[OF ab] quotient_of_div[OF ab] by simp_all
  have a: "0 < a" using assms b q by (simp add: zero_less_divide_iff)
  define la where "la = bit_len (nat a)"
  define lb where "lb = bit_len (nat b)"
  define d where "d = int la - int lb"
  have la: "2 ^ (la - 1) \<le> nat a" "nat a < 2 ^ la" "0 < la"
    using bit_len_bounds[of "nat a"] bit_len_pos[of "nat a"] a by (simp_all add: la_def)
  have lb: "2 ^ (lb - 1) \<le> nat b" "nat b < 2 ^ lb" "0 < lb"
    using bit_len_bounds[of "nat b"] bit_len_pos[of "nat b"] b by (simp_all add: lb_def)
  have ra: "(2::rat) ^ (la - 1) \<le> of_int a" "(of_int a :: rat) < 2 ^ la"
  proof -
    have "(of_nat (2 ^ (la - 1)) :: rat) \<le> of_nat (nat a)" using la(1) by (simp only: of_nat_le_iff)
    then show "(2::rat) ^ (la - 1) \<le> of_int a" using a by simp
    have "(of_nat (nat a) :: rat) < of_nat (2 ^ la)" using la(2) by (simp only: of_nat_less_iff)
    then show "(of_int a :: rat) < 2 ^ la" using a by simp
  qed
  have rb: "(2::rat) ^ (lb - 1) \<le> of_int b" "(of_int b :: rat) < 2 ^ lb"
  proof -
    have "(of_nat (2 ^ (lb - 1)) :: rat) \<le> of_nat (nat b)" using lb(1) by (simp only: of_nat_le_iff)
    then show "(2::rat) ^ (lb - 1) \<le> of_int b" using b by simp
    have "(of_nat (nat b) :: rat) < of_nat (2 ^ lb)" using lb(2) by (simp only: of_nat_less_iff)
    then show "(of_int b :: rat) < 2 ^ lb" using b by simp
  qed
  have bpos: "(0::rat) < of_int b" using b by simp
  have pd: "(2::rat) powi d = 2 ^ la / 2 ^ lb"
    unfolding d_def by (simp add: power_int_diff)
  have pd1: "(2::rat) powi (d + 1) = 2 * 2 ^ la / 2 ^ lb"
    by (simp add: power_int_add pd)
  have pdm: "(2::rat) powi (d - 1) = 2 ^ la / (2 * 2 ^ lb)"
    by (simp add: power_int_diff pd)
  have up: "q < 2 powi (d + 1)"
  proof -
    have "2 ^ lb = (2::rat) * 2 ^ (lb - 1)" using lb(3) by (cases lb) simp_all
    then have "(2::rat) ^ lb \<le> 2 * of_int b" using rb(1) by simp
    then have "of_int a * (2::rat) ^ lb \<le> of_int a * (2 * of_int b)"
      using a by (intro mult_left_mono) simp_all
    moreover have "of_int a * (2 * of_int b) < (2::rat) ^ la * (2 * of_int b)"
      using ra(2) bpos by (intro mult_strict_right_mono) simp_all
    ultimately have "of_int a * (2::rat) ^ lb < 2 * 2 ^ la * of_int b" by (simp add: mult_ac)
    then show ?thesis unfolding pd1 q using bpos by (simp add: field_simps)
  qed
  have lo: "2 powi (d - 1) < q"
  proof -
    have "2 ^ la = (2::rat) * 2 ^ (la - 1)" using la(3) by (cases la) simp_all
    then have "(2::rat) ^ la \<le> 2 * of_int a" using ra(1) by simp
    then have "(2::rat) ^ la * of_int b \<le> 2 * of_int a * of_int b"
      using bpos by (intro mult_right_mono) simp_all
    moreover have "2 * of_int a * of_int b < 2 * of_int a * (2::rat) ^ lb"
      using rb(2) a by (intro mult_strict_left_mono) simp_all
    ultimately have "(2::rat) ^ la * of_int b < of_int a * (2 * 2 ^ lb)" by (simp add: mult_ac)
    then show ?thesis unfolding pdm q using bpos by (simp add: field_simps)
  qed
  have fl: "floor_log2 q = (if 2 powi d \<le> q then d else d - 1)"
    by (simp add: floor_log2_def ab la_def lb_def d_def Let_def)
  show ?thesis
  proof (cases "2 powi d \<le> q")
    case True
    then show ?thesis using up fl by simp
  next
    case False
    then show ?thesis using lo fl by simp
  qed
qed

lemma round_half_even_near: "\<bar>of_int (round_half_even q) - q\<bar> \<le> 1 / 2"
proof -
  define f where "f = \<lfloor>q\<rfloor>"
  define d where "d = q - of_int f"
  have fl: "of_int f \<le> q" "q < of_int f + 1" unfolding f_def by linarith+
  have r: "round_half_even q = (if d < 1 / 2 then f else if 1 / 2 < d then f + 1 else if even f then f else f + 1)"
    by (simp add: round_half_even_def Let_def f_def d_def)
  consider "d < 1 / 2" | "1 / 2 < d" | "d = 1 / 2" by linarith
  then show ?thesis
  proof cases
    case 1
    then have "round_half_even q = f" by (simp add: r)
    then show ?thesis using fl 1 by (simp add: d_def abs_if)
  next
    case 2
    then have "round_half_even q = f + 1" by (simp add: r)
    then show ?thesis using fl 2 by (simp add: d_def abs_if)
  next
    case 3
    then have "round_half_even q = f \<or> round_half_even q = f + 1" by (simp add: r)
    then show ?thesis using fl 3 by (auto simp: d_def abs_if)
  qed
qed

lemma round_half_even_of_int: "round_half_even (of_int n) = n"
  by (simp add: round_half_even_def)

lemma pow2_exponent_less: "(2::rat) powi m \<le> x \<Longrightarrow> x < 2 powi n \<Longrightarrow> m < n"
proof (rule ccontr)
  assume a: "(2::rat) powi m \<le> x" "x < 2 powi n" and "\<not> m < n"
  then have "n \<le> m" by simp
  then have "(2::rat) powi n \<le> 2 powi m" by (intro power_int_increasing) simp_all
  with a show False by simp
qed

text \<open>The rounding step of \<open>nearest_double\<close>, named.\<close>

lemma nearest_double_step:
  assumes "q \<noteq> 0"
  defines "e \<equiv> max (floor_log2 \<bar>q\<bar>) (- 1022)"
  defines "ulp \<equiv> (2::rat) powi (e - 52)"
  defines "r \<equiv> of_int (round_half_even (q / ulp)) * ulp"
  shows "nearest_double q = (if 2 powi 1024 \<le> \<bar>r\<bar> then None else Some r)"
    and "\<bar>r - q\<bar> \<le> ulp / 2"
proof -
  show "nearest_double q = (if 2 powi 1024 \<le> \<bar>r\<bar> then None else Some r)"
    using assms(1) by (simp add: nearest_double_def Let_def e_def ulp_def r_def)
  have up: "0 < ulp" by (simp add: ulp_def)
  have "r - q = (of_int (round_half_even (q / ulp)) - q / ulp) * ulp"
    using up by (simp add: r_def algebra_simps)
  then have "\<bar>r - q\<bar> = \<bar>of_int (round_half_even (q / ulp)) - q / ulp\<bar> * ulp"
    using up by (simp add: abs_mult)
  also have "\<dots> \<le> (1 / 2) * ulp"
    using up round_half_even_near[of "q / ulp"] by (intro mult_right_mono) simp_all
  finally show "\<bar>r - q\<bar> \<le> ulp / 2" by simp
qed

lemma nearest_double_small:
  assumes "\<bar>q\<bar> < 2 ^ 34"
  shows "\<exists>r. nearest_double q = Some r \<and> \<bar>r - q\<bar> \<le> 1 / 2 ^ 20"
proof (cases "q = 0")
  case True
  then show ?thesis by (simp add: nearest_double_def)
next
  case False
  define e where "e = max (floor_log2 \<bar>q\<bar>) (- 1022)"
  define ulp where "ulp = (2::rat) powi (e - 52)"
  define r where "r = of_int (round_half_even (q / ulp)) * ulp"
  note st = nearest_double_step[OF False, folded e_def ulp_def r_def]
  have "0 < \<bar>q\<bar>" using False by simp
  then have "2 powi (floor_log2 \<bar>q\<bar>) \<le> \<bar>q\<bar>" using floor_log2_bounds by blast
  moreover have "\<bar>q\<bar> < 2 powi 34" using assms by simp
  ultimately have "floor_log2 \<bar>q\<bar> < 34" by (rule pow2_exponent_less)
  then have e: "e \<le> 33" by (simp add: e_def)
  then have "ulp \<le> 2 powi (- 19)"
    unfolding ulp_def by (intro power_int_increasing) simp_all
  then have u: "ulp / 2 \<le> 1 / 2 ^ 20" by (simp add: power_int_minus field_simps)
  with st(2) have near: "\<bar>r - q\<bar> \<le> 1 / 2 ^ 20" by simp
  then have "\<bar>r\<bar> \<le> \<bar>q\<bar> + 1 / 2 ^ 20" by linarith
  also have "\<dots> < 2 ^ 34 + 1" using assms by simp
  also have "\<dots> < (2::rat) ^ 1024" by simp
  finally have "\<not> 2 powi 1024 \<le> \<bar>r\<bar>" by simp
  with st(1) near show ?thesis by simp
qed

lemma nearest_double_scaled_int:
  assumes "\<bar>b\<bar> < 2 ^ 53"
  shows "nearest_double (of_int b / (1024 * 1024)) = Some (of_int b / (1024 * 1024))"
proof (cases "b = 0")
  case True
  then show ?thesis by (simp add: nearest_double_def)
next
  case False
  define q :: rat where "q = of_int b / (1024 * 1024)"
  have q0: "q \<noteq> 0" using False by (simp add: q_def)
  define e where "e = max (floor_log2 \<bar>q\<bar>) (- 1022)"
  define ulp where "ulp = (2::rat) powi (e - 52)"
  define r where "r = of_int (round_half_even (q / ulp)) * ulp"
  note st = nearest_double_step[OF q0, folded e_def ulp_def r_def]
  have aq: "\<bar>q\<bar> = of_int \<bar>b\<bar> / 2 ^ 20" by (simp add: q_def)
  have "(of_int \<bar>b\<bar> :: rat) < of_int (2 ^ 53)" using assms by (simp only: of_int_less_iff)
  then have "\<bar>q\<bar> < 2 ^ 53 / 2 ^ 20" unfolding aq by (simp add: divide_strict_right_mono)
  then have hi: "\<bar>q\<bar> < 2 powi 33" by simp
  have "1 \<le> \<bar>b\<bar>" using False by simp
  then have "(of_int 1 :: rat) \<le> of_int \<bar>b\<bar>" by (simp only: of_int_le_iff)
  then have "1 / 2 ^ 20 \<le> \<bar>q\<bar>" unfolding aq by (simp add: divide_right_mono)
  then have lo: "2 powi (- 20) \<le> \<bar>q\<bar>" by (simp add: power_int_minus field_simps)
  have pos: "0 < \<bar>q\<bar>" using q0 by simp
  note fb = floor_log2_bounds[OF pos]
  have f1: "floor_log2 \<bar>q\<bar> < 33" using fb hi by (intro pow2_exponent_less[of _ "\<bar>q\<bar>"]) simp_all
  have "- 20 < floor_log2 \<bar>q\<bar> + 1" using fb lo by (intro pow2_exponent_less[of _ "\<bar>q\<bar>"]) simp_all
  then have e: "- 20 \<le> e" "e \<le> 32" using f1 by (simp_all add: e_def)
  define k where "k = nat (32 - e)"
  have ek: "e - 52 = - 20 - int k" using e by (simp add: k_def)
  have ulp: "ulp = 1 / (2 ^ 20 * 2 ^ k)"
    unfolding ulp_def ek by (simp add: power_int_diff power_int_minus field_simps)
  have "q / ulp = of_int (b * 2 ^ k)" by (simp add: q_def ulp)
  then have "round_half_even (q / ulp) = b * 2 ^ k" by (simp only: round_half_even_of_int)
  then have "r = q" by (simp add: r_def ulp q_def)
  moreover have "\<not> 2 powi 1024 \<le> \<bar>q\<bar>"
  proof -
    have "\<bar>q\<bar> < (2::rat) ^ 33" using hi by simp
    also have "\<dots> < 2 ^ 1024" by simp
    finally show ?thesis by simp
  qed
  ultimately show ?thesis using st(1) by (simp add: q_def)
qed

lemma floor_log2_unique:
  assumes "0 < q" "2 powi e \<le> q" "q < 2 powi (e + 1)"
  shows "floor_log2 q = e"
proof -
  note b = floor_log2_bounds[OF assms(1)]
  have "floor_log2 q < e + 1" using b assms(3) by (intro pow2_exponent_less[of _ q]) simp_all
  moreover have "e < floor_log2 q + 1" using b assms(2) by (intro pow2_exponent_less[of _ q]) simp_all
  ultimately show ?thesis by simp
qed

text \<open>Evaluating \<open>nearest_double\<close> with the exponent given.\<close>

lemma nearest_double_at:
  assumes "q \<noteq> 0" "2 powi e0 \<le> \<bar>q\<bar>" "\<bar>q\<bar> < 2 powi (e0 + 1)"
    and "ulp = 2 powi (max e0 (- 1022) - 52)"
    and "round_half_even (q / ulp) = m"
  shows "nearest_double q = (if 2 powi 1024 \<le> \<bar>of_int m * ulp\<bar> then None else Some (of_int m * ulp))"
proof -
  have "floor_log2 \<bar>q\<bar> = e0" using assms(1-3) by (intro floor_log2_unique) simp_all
  then show ?thesis using assms(1,4,5) by (simp add: nearest_double_def Let_def)
qed

lemma nd_012: "nearest_double (12 / 100) = Some (1080863910568919 / 9007199254740992)"
proof -
  have u: "(1 / 72057594037927936 :: rat) = 2 powi (max (- 4) (- 1022) - 52)"
    by (simp add: power_int_minus)
  have r: "round_half_even ((12 / 100) / (1 / 72057594037927936)) = 8646911284551352"
    by code_simp
  have "nearest_double (12 / 100)
      = (if 2 powi 1024 \<le> \<bar>of_int 8646911284551352 * (1 / 72057594037927936 :: rat)\<bar> then None
         else Some (of_int 8646911284551352 * (1 / 72057594037927936)))"
    by (rule nearest_double_at[where ?e0.0 = "- 4", OF _ _ _ u r]) (simp_all add: power_int_minus)
  then show ?thesis by simp
qed

lemma nd_overflow: "nearest_double (2 ^ 1044 / (1024 * 1024)) = None"
proof -
  have q: "(2 ^ 1044 / (1024 * 1024) :: rat) = 2 ^ 1024" by simp
  have u: "(2 ^ 972 :: rat) = 2 powi (max 1024 (- 1022) - 52)" by simp
  have "(2 ^ 1024 / 2 ^ 972 :: rat) = of_int (2 ^ 52)" by simp
  then have r: "round_half_even (2 ^ 1024 / 2 ^ 972) = 2 ^ 52"
    by (simp only: round_half_even_of_int)
  have "nearest_double (2 ^ 1024)
      = (if 2 powi 1024 \<le> \<bar>of_int (2 ^ 52) * (2 ^ 972 :: rat)\<bar> then None
         else Some (of_int (2 ^ 52) * 2 ^ 972))"
    by (rule nearest_double_at[where ?e0.0 = 1024, OF _ _ _ u r]) simp_all
  then show ?thesis unfolding q by simp
qed

lemma two_decimals_near: "\<bar>of_int (round_half_even (x * 100)) / 100 - x\<bar> \<le> 1 / 200"
proof -
  have "\<bar>of_int (round_half_even (x * 100)) - x * 100\<bar> \<le> 1 / 2"
    by (rule round_half_even_near)
  moreover have "of_int (round_half_even (x * 100)) / 100 - x
                   = (of_int (round_half_even (x * 100)) - x * 100) / 100"
    by (simp add: diff_divide_distrib)
  ultimately have "\<bar>of_int (round_half_even (x * 100)) / 100 - x\<bar>
                     = \<bar>of_int (round_half_even (x * 100)) - x * 100\<bar> / 100"
      and "\<bar>of_int (round_half_even (x * 100)) - x * 100\<bar> / 100 \<le> (1 / 2) / 100"
    by (simp_all only: abs_divide divide_right_mono abs_numeral zero_le_numeral)
  then show ?thesis by simp
qed

lemma bytes_to_mb_Some_D:
  "bytes_to_mb (Some b) = Some r \<Longrightarrow>
   \<exists>x. nearest_double (of_int b / (1024 * 1024)) = Some x \<and>
       nearest_double (of_int (round_half_even (x * 100)) / 100) = Some r"
  by (auto simp: bytes_to_mb_def py_round2_def split: option.splits)

lemma bytes_to_mb_below_2_53:
  assumes "\<bar>b\<bar> < 2 ^ 53"
  shows "\<exists>r. bytes_to_mb (Some b) = Some r \<and> \<bar>r - of_int b / (1024 * 1024)\<bar> \<le> 1 / 200 + 1 / 2 ^ 20"
proof -
  define x :: rat where "x = of_int b / (1024 * 1024)"
  define d :: rat where "d = of_int (round_half_even (x * 100)) / 100"
  have ex: "nearest_double x = Some x"
    unfolding x_def using assms by (rule nearest_double_scaled_int)
  have "(of_int \<bar>b\<bar> :: rat) < of_int (2 ^ 53)" using assms by (simp only: of_int_less_iff)
  then have "\<bar>x\<bar> < 2 ^ 53 / 2 ^ 20" by (simp add: x_def divide_strict_right_mono)
  then have xb: "\<bar>x\<bar> < 2 ^ 33" by simp
  have dn: "\<bar>d - x\<bar> \<le> 1 / 200" unfolding d_def by (rule two_decimals_near)
  then have "\<bar>d\<bar> \<le> \<bar>x\<bar> + 1 / 200" by linarith
  also have "\<dots> < 2 ^ 33 + 1" using xb by simp
  also have "\<dots> < (2::rat) ^ 34" by simp
  finally obtain r where r: "nearest_double d = Some r" "\<bar>r - d\<bar> \<le> 1 / 2 ^ 20"
    using nearest_double_small by blast
  have "bytes_to_mb (Some b) = Some r"
    using ex r(1) by (simp add: bytes_to_mb_def py_round2_def x_def d_def)
  moreover have "\<bar>r - x\<bar> \<le> 1 / 200 + 1 / 2 ^ 20" using dn r(2) by linarith
  ultimately show ?thesis by (auto simp: x_def)
qed

lemma bytes_to_mb_zero: "bytes_to_mb (Some 0) = Some 0"
  by (simp add: bytes_to_mb_def py_round2_def nearest_double_def round_half_even_def)

lemma nearest_double_one: "nearest_double 1 = Some 1"
  using nearest_double_scaled_int[of 1048576] by simp

lemma bytes_to_mb_one: "bytes_to_mb (Some 1048576) = Some 1"
proof -
  have "nearest_double (of_int 1048576 / (1024 * 1024)) = Some 1"
    using nearest_double_one by simp
  moreover have "round_half_even (1 * 100) = 100"
    using round_half_even_of_int[of 100] by simp
  ultimately show ?thesis
    using nearest_double_one by (simp add: bytes_to_mb_def py_round2_def)
qed

lemma bytes_to_mb_overflow: "bytes_to_mb (Some (2 ^ 1044)) = None"
  using nd_overflow by (simp add: bytes_to_mb_def)

lemma nd_above_2_53:
  "nearest_double (of_int (2 ^ 53 + 131073) / (1024 * 1024)) = Some (2 ^ 33 + 1 / 8)"
proof -
  have u: "(1 / 524288 :: rat) = 2 powi (max 33 (- 1022) - 52)"
    by (simp add: power_int_minus)
  have r: "round_half_even ((of_int (2 ^ 53 + 131073) / (1024 * 1024)) / (1 / 524288)) = 4503599627436032"
    by code_simp
  have "nearest_double (of_int (2 ^ 53 + 131073) / (1024 * 1024))
      = (if 2 powi 1024 \<le> \<bar>of_int 4503599627436032 * (1 / 524288 :: rat)\<bar> then None
         else Some (of_int 4503599627436032 * (1 / 524288)))"
    by (rule nearest_double_at[where ?e0.0 = 33, OF _ _ _ u r]) simp_all
  then show ?thesis by simp
qed

lemma nd_two_decimals_above_2_53:
  "nearest_double (858993459212 / 100) = Some (4503599627433411 / 524288)"
proof -
  have u: "(1 / 524288 :: rat) = 2 powi (max 33 (- 1022) - 52)"
    by (simp add: power_int_minus)
  have r: "round_half_even ((858993459212 / 100) / (1 / 524288)) = 4503599627433411"
    by code_simp
  have "nearest_double (858993459212 / 100)
      = (if 2 powi 1024 \<le> \<bar>of_int 4503599627433411 * (1 / 524288 :: rat)\<bar> then None
         else Some (of_int 4503599627433411 * (1 / 524288)))"
    by (rule nearest_double_at[where ?e0.0 = 33, OF _ _ _ u r]) simp_all
  then show ?thesis by simp
qed

lemma bytes_to_mb_above_2_53:
  "bytes_to_mb (Some (2 ^ 53 + 131073)) = Some (4503599627433411 / 524288)"
proof -
  have k: "round_half_even ((2 ^ 33 + 1 / 8) * 100) = 858993459212" by code_simp
  show ?thesis
    using nd_above_2_53 k nd_two_decimals_above_2_53
    by (simp add: bytes_to_mb_def py_round2_def)
qed

text \<open>
  C4: the conversion of bytes to megabytes maps an absent value to 0, 0 to 0 and 1048576
  to 1.0.  Every result is the quotient by \<open>1024 * 1024\<close> (as a float) rounded to two
  decimal places: the two-decimal number nearest to it, ties to even, as a float.  For
  byte counts below \<open>2^53\<close> the quotient is exact and a result is returned, within half a
  hundredth of the exact quotient up to the float's own precision.  (A quotient that is
  not a finite float raises instead of giving a result, as for \<open>2^1044\<close> bytes.)
\<close>

theorem bytes_to_mb_conversion:
  "bytes_to_mb None = Some 0 \<and>
   bytes_to_mb (Some 0) = Some 0 \<and>
   bytes_to_mb (Some 1048576) = Some 1 \<and>
   (bytes_to_mb (Some b) = Some r \<longrightarrow>
      (\<exists>x. nearest_double (of_int b / (1024 * 1024)) = Some x \<and>
           nearest_double (of_int (round_half_even (x * 100)) / 100) = Some r \<and>
           \<bar>of_int (round_half_even (x * 100)) / 100 - x\<bar> \<le> 1 / 200)) \<and>
   (\<bar>c\<bar> < 2 ^ 53 \<longrightarrow>
      nearest_double (of_int c / (1024 * 1024)) = Some (of_int c / (1024 * 1024)) \<and>
      (\<exists>r. bytes_to_mb (Some c) = Some r \<and>
           \<bar>r - of_int c / (1024 * 1024)\<bar> \<le> 1 / 200 + 1 / 2 ^ 20)) \<and>
   bytes_to_mb (Some (2 ^ 1044)) = None"
proof (intro conjI impI)
  show "bytes_to_mb None = Some 0" by (simp add: bytes_to_mb_def)
  show "bytes_to_mb (Some 0) = Some 0" by (rule bytes_to_mb_zero)
  show "bytes_to_mb (Some 1048576) = Some 1" by (rule bytes_to_mb_one)
  show "bytes_to_mb (Some (2 ^ 1044)) = None" by (rule bytes_to_mb_overflow)
next
  assume "bytes_to_mb (Some b) = Some r"
  then show "\<exists>x. nearest_double (of_int b / (1024 * 1024)) = Some x \<and>
           nearest_double (of_int (round_half_even (x * 100)) / 100) = Some r \<and>
           \<bar>of_int (round_half_even (x * 100)) / 100 - x\<bar> \<le> 1 / 200"
    using bytes_to_mb_Some_D[of b r] two_decimals_near by blast
next
  assume a: "\<bar>c\<bar> < 2 ^ 53"
  show "nearest_double (of_int c / (1024 * 1024)) = Some (of_int c / (1024 * 1024))"
    using a by (rule nearest_double_scaled_int)
  show "\<exists>r. bytes_to_mb (Some c) = Some r \<and>
           \<bar>r - of_int c / (1024 * 1024)\<bar> \<le> 1 / 200 + 1 / 2 ^ 20"
    using a by (rule bytes_to_mb_below_2_53)
qed

theorem bytes_to_mb_witness:
  "\<bar>131072\<bar> < (2 :: int) ^ 53 \<and>
   nearest_double (of_int 131072 / (1024 * 1024)) = Some (1 / 8) \<and>
   round_half_even ((1 / 8) * 100) = 12 \<and>
   bytes_to_mb (Some 131072) = Some (1080863910568919 / 9007199254740992) \<and>
   bytes_to_mb (Some (2 ^ 53 + 131073)) = Some (4503599627433411 / 524288) \<and>
   nearest_double (of_int (2 ^ 53 + 131073) / (1024 * 1024)) = Some (2 ^ 33 + 1 / 8) \<and>
   round_half_even ((2 ^ 33 + 1 / 8) * 100) = 858993459212"
proof -
  have h: "\<bar>131072\<bar> < (2 :: int) ^ 53" by simp
  have x: "nearest_double (of_int 131072 / (1024 * 1024)) = Some (1 / 8)"
    using bytes_to_mb_conversion[of 0 0 131072] h by simp
  have k: "round_half_even ((1 / 8) * 100) = 12" by code_simp
  have "bytes_to_mb (Some 131072) = Some (1080863910568919 / 9007199254740992)"
    using x k nd_012 by (simp add: bytes_to_mb_def py_round2_def)
  moreover have "round_half_even ((2 ^ 33 + 1 / 8) * 100) = 858993459212" by code_simp
  ultimately show ?thesis
    using h x k bytes_to_mb_above_2_53 nd_above_2_53 by blast
qed

section \<open>Properties of the size fields of a project record\<close>

lemma project_stats_cells:
  assumes "project_stats p path cs tc rs mr = Some r"
  shows "map_of r ''exceeds_2gb'' = Some (PyBool (snd (final_sizes rs p) > 2 * 1024 * 1024 * 1024))"
    and "map_of r ''exceeds_6gb'' = Some (PyBool (snd (final_sizes rs p) > 6 * 1024 * 1024 * 1024))"
    and "map_of r ''total_size_mb'' = map_option PyFloat (bytes_to_mb (Some (snd (final_sizes rs p))))"
    and "map_of r ''repository_size_mb'' = map_option PyFloat (bytes_to_mb (Some (fst (final_sizes rs p))))"
    and "bytes_to_mb (Some (fst (final_sizes rs p))) \<noteq> None"
    and "bytes_to_mb (Some (snd (final_sizes rs p))) \<noteq> None"
    and "map fst r = project_fieldnames"
  using assms
  by (cases "final_sizes rs p";
      auto simp: project_stats_def Let_def project_fieldnames_def split: option.splits)+

lemma project_stats_emitted:
  "project_stats p path cs tc rs mr \<noteq> None \<longleftrightarrow>
     bytes_to_mb (Some (fst (final_sizes rs p))) \<noteq> None \<and>
     bytes_to_mb (Some (snd (final_sizes rs p))) \<noteq> None"
  by (cases "final_sizes rs p") (auto simp: project_stats_def Let_def split: option.splits)

lemma bytes_to_mb_returns: "\<bar>b\<bar> < 2 ^ 53 \<Longrightarrow> bytes_to_mb (Some b) \<noteq> None"
  using bytes_to_mb_below_2_53[of b] by auto

lemma collect_sub_queries_sizes:
  "storage_size (collect_sub_queries env pid s) = storage_size s \<and>
   repository_size (collect_sub_queries env pid s) = repository_size s \<and>
   exceeds_2gb (collect_sub_queries env pid s) = exceeds_2gb s \<and>
   exceeds_6gb (collect_sub_queries env pid s) = exceeds_6gb s \<and>
   commit_count (collect_sub_queries env pid s) = commit_count s"
  by (simp add: collect_sub_queries_def Let_def)

lemma apply_statistics_flags:
  "exceeds_2gb s = (storage_size s > 2 * 1024 * 1024 * 1024) \<Longrightarrow>
   exceeds_6gb s = (storage_size s > 6 * 1024 * 1024 * 1024) \<Longrightarrow>
   exceeds_2gb (apply_statistics s st) = (storage_size (apply_statistics s st) > 2 * 1024 * 1024 * 1024) \<and>
   exceeds_6gb (apply_statistics s st) = (storage_size (apply_statistics s st) > 6 * 1024 * 1024 * 1024)"
  by (cases st) (simp_all add: apply_statistics_def Let_def)

lemma api_stats_flags:
  "exceeds_2gb (get_repository_stats_via_api env pid) =
     (storage_size (get_repository_stats_via_api env pid) > 2 * 1024 * 1024 * 1024) \<and>
   exceeds_6gb (get_repository_stats_via_api env pid) =
     (storage_size (get_repository_stats_via_api env pid) > 6 * 1024 * 1024 * 1024)"
proof -
  have i: "exceeds_2gb initial_stats = (storage_size initial_stats > 2 * 1024 * 1024 * 1024)"
          "exceeds_6gb initial_stats = (storage_size initial_stats > 6 * 1024 * 1024 * 1024)"
    by (simp_all add: initial_stats_def)
  show ?thesis
    using i apply_statistics_flags[OF i]
    by (simp add: get_repository_stats_via_api_def collect_sub_queries_sizes
             split: http.splits option.splits)
qed

lemma final_sizes_cases:
  "final_sizes rs p =
     (if repository_size rs = 0 \<and> storage_size rs = 0 then listing_sizes p
      else (repository_size rs, storage_size rs))"
  by (simp add: final_sizes_def)

lemma final_sizes_storage_set:
  "x \<noteq> 0 \<Longrightarrow> final_sizes (rs\<lparr>storage_size := x\<rparr>) p = (repository_size rs, x)"
  by (simp add: final_sizes_def)

text \<open>
  C2: in every project record the two threshold flags are \<open>size > 2 * 1024^3\<close> and
  \<open>size > 6 * 1024^3\<close> for one and the same final storage size (the one from the API
  statistics, or from the listing entry when both API sizes are zero), which also gives
  the reported total size.  Exactly \<open>2 * 1024^3\<close> bytes leaves the 2 GiB flag unset,
  \<open>6 * 1024^3 + 1\<close> bytes set both flags, and the 6 GiB flag implies the 2 GiB flag.
  The flags that \<^verbatim>\<open>get_repository_stats_via_api\<close> computes agree with its storage size too.
  A record is built for given sizes exactly when both conversions to megabytes return,
  which they do for every size below \<open>2^53\<close> bytes.
\<close>

theorem size_thresholds_strict_and_consistent:
  "(project_stats p path cs tc rs mr = Some r \<longrightarrow>
      map_of r ''exceeds_2gb''
        = Some (PyBool (snd (final_sizes rs p) > 2 * 1024 * 1024 * 1024)) \<and>
      map_of r ''exceeds_6gb''
        = Some (PyBool (snd (final_sizes rs p) > 6 * 1024 * 1024 * 1024)) \<and>
      map_of r ''total_size_mb''
        = map_option PyFloat (bytes_to_mb (Some (snd (final_sizes rs p)))) \<and>
      bytes_to_mb (Some (snd (final_sizes rs p))) \<noteq> None \<and>
      (map_of r ''exceeds_6gb'' = Some (PyBool True) \<longrightarrow>
       map_of r ''exceeds_2gb'' = Some (PyBool True))) \<and>
   snd (final_sizes rs p)
     = (if repository_size rs = 0 \<and> storage_size rs = 0 then snd (listing_sizes p) else storage_size rs) \<and>
   (project_stats p path cs tc (rs\<lparr>storage_size := 2 * 1024 * 1024 * 1024\<rparr>) mr = Some r2 \<longrightarrow>
      map_of r2 ''exceeds_2gb'' = Some (PyBool False)) \<and>
   (project_stats p path cs tc (rs\<lparr>storage_size := 6 * 1024 * 1024 * 1024 + 1\<rparr>) mr = Some r6 \<longrightarrow>
      map_of r6 ''exceeds_2gb'' = Some (PyBool True) \<and>
      map_of r6 ''exceeds_6gb'' = Some (PyBool True)) \<and>
   (project_stats p path cs tc rs mr \<noteq> None \<longleftrightarrow>
      bytes_to_mb (Some (fst (final_sizes rs p))) \<noteq> None \<and>
      bytes_to_mb (Some (snd (final_sizes rs p))) \<noteq> None) \<and>
   (\<bar>repository_size rs\<bar> < 2 ^ 53 \<longrightarrow>
      project_stats p path cs tc (rs\<lparr>storage_size := 2 * 1024 * 1024 * 1024\<rparr>) mr \<noteq> None \<and>
      project_stats p path cs tc (rs\<lparr>storage_size := 6 * 1024 * 1024 * 1024 + 1\<rparr>) mr \<noteq> None) \<and>
   exceeds_2gb (get_repository_stats_via_api env pid)
     = (storage_size (get_repository_stats_via_api env pid) > 2 * 1024 * 1024 * 1024) \<and>
   exceeds_6gb (get_repository_stats_via_api env pid)
     = (storage_size (get_repository_stats_via_api env pid) > 6 * 1024 * 1024 * 1024)"
proof (intro conjI impI)
  assume a: "project_stats p path cs tc rs mr = Some r"
  show "map_of r ''exceeds_2gb'' = Some (PyBool (snd (final_sizes rs p) > 2 * 1024 * 1024 * 1024))"
    and "map_of r ''exceeds_6gb'' = Some (PyBool (snd (final_sizes rs p) > 6 * 1024 * 1024 * 1024))"
    and "map_of r ''total_size_mb'' = map_option PyFloat (bytes_to_mb (Some (snd (final_sizes rs p))))"
    and "bytes_to_mb (Some (snd (final_sizes rs p))) \<noteq> None"
    by (rule project_stats_cells[OF a])+
  assume "map_of r ''exceeds_6gb'' = Some (PyBool True)"
  then show "map_of r ''exceeds_2gb'' = Some (PyBool True)"
    using project_stats_cells(1,2)[OF a] by simp
next
  show "snd (final_sizes rs p)
     = (if repository_size rs = 0 \<and> storage_size rs = 0 then snd (listing_sizes p) else storage_size rs)"
    by (simp add: final_sizes_def)
next
  assume a: "project_stats p path cs tc (rs\<lparr>storage_size := 2 * 1024 * 1024 * 1024\<rparr>) mr = Some r2"
  show "map_of r2 ''exceeds_2gb'' = Some (PyBool False)"
    using project_stats_cells(1)[OF a] by (simp add: final_sizes_storage_set)
next
  assume a: "project_stats p path cs tc (rs\<lparr>storage_size := 6 * 1024 * 1024 * 1024 + 1\<rparr>) mr = Some r6"
  show "map_of r6 ''exceeds_2gb'' = Some (PyBool True)"
    using project_stats_cells(1)[OF a] by (simp add: final_sizes_storage_set)
  show "map_of r6 ''exceeds_6gb'' = Some (PyBool True)"
    using project_stats_cells(2)[OF a] by (simp add: final_sizes_storage_set)
next
  show "project_stats p path cs tc rs mr \<noteq> None \<longleftrightarrow>
      bytes_to_mb (Some (fst (final_sizes rs p))) \<noteq> None \<and>
      bytes_to_mb (Some (snd (final_sizes rs p))) \<noteq> None"
    by (rule project_stats_emitted)
next
  assume a: "\<bar>repository_size rs\<bar> < 2 ^ 53"
  have r: "bytes_to_mb (Some (repository_size rs)) \<noteq> None" using a by (rule bytes_to_mb_returns)
  have s2: "bytes_to_mb (Some (2 * 1024 * 1024 * 1024)) \<noteq> None"
    by (rule bytes_to_mb_returns) simp
  have s6: "bytes_to_mb (Some (6 * 1024 * 1024 * 1024 + 1)) \<noteq> None"
    by (rule bytes_to_mb_returns) simp
  have f2: "final_sizes (rs\<lparr>storage_size := 2 * 1024 * 1024 * 1024\<rparr>) p
              = (repository_size rs, 2 * 1024 * 1024 * 1024)"
    by (rule final_sizes_storage_set) simp
  have f6: "final_sizes (rs\<lparr>storage_size := 6 * 1024 * 1024 * 1024 + 1\<rparr>) p
              = (repository_size rs, 6 * 1024 * 1024 * 1024 + 1)"
    by (rule final_sizes_storage_set) simp
  from project_stats_emitted[of p path cs tc "rs\<lparr>storage_size := 2 * 1024 * 1024 * 1024\<rparr>" mr,
      unfolded f2 fst_conv snd_conv] r s2
  show "project_stats p path cs tc (rs\<lparr>storage_size := 2 * 1024 * 1024 * 1024\<rparr>) mr \<noteq> None"
    by blast
  from project_stats_emitted[of p path cs tc "rs\<lparr>storage_size := 6 * 1024 * 1024 * 1024 + 1\<rparr>" mr,
      unfolded f6 fst_conv snd_conv] r s6
  show "project_stats p path cs tc (rs\<lparr>storage_size := 6 * 1024 * 1024 * 1024 + 1\<rparr>) mr \<noteq> None"
    by blast
next
  show "exceeds_2gb (get_repository_stats_via_api env pid)
     = (storage_size (get_repository_stats_via_api env pid) > 2 * 1024 * 1024 * 1024)"
    and "exceeds_6gb (get_repository_stats_via_api env pid)
     = (storage_size (get_repository_stats_via_api env pid) > 6 * 1024 * 1024 * 1024)"
    using api_stats_flags by blast+
qed

lemma bytes_to_mb_nine: "bytes_to_mb (Some 9) = Some 0"
proof -
  have "nearest_double (of_int 9 / (1024 * 1024)) = Some (of_int 9 / (1024 * 1024))"
    by (rule nearest_double_scaled_int) simp
  moreover have "round_half_even ((9 / (1024 * 1024)) * 100) = 0" by code_simp
  ultimately show ?thesis
    by (simp add: bytes_to_mb_def py_round2_def nearest_double_def)
qed

lemma demo_listing_sizes: "listing_sizes demo_project = (7, 9)"
  by (simp add: listing_sizes_def demo_project_def get_or_def)

theorem size_thresholds_witness:
  "\<bar>repository_size initial_stats\<bar> < 2 ^ 53 \<and>
   map_option (\<lambda>r. map_of r ''exceeds_6gb'')
     (project_stats demo_project ''team/app'' [] 0
        (initial_stats\<lparr>storage_size := 6 * 1024 * 1024 * 1024 + 1\<rparr>) 0) = Some (Some (PyBool True)) \<and>
   map_option (\<lambda>r. map_of r ''exceeds_2gb'')
     (project_stats demo_project ''team/app'' [] 0
        (initial_stats\<lparr>storage_size := 6 * 1024 * 1024 * 1024 + 1\<rparr>) 0) = Some (Some (PyBool True)) \<and>
   map_option (\<lambda>r. map_of r ''exceeds_2gb'')
     (project_stats demo_project ''team/app'' [] 0
        (initial_stats\<lparr>storage_size := 2 * 1024 * 1024 * 1024\<rparr>) 0) = Some (Some (PyBool False)) \<and>
   map_option (\<lambda>r. map_of r ''total_size_mb'')
     (project_stats demo_project ''team/app'' [] 0 initial_stats 0) = Some (Some (PyFloat 0))"
proof -
  let ?s6 = "initial_stats\<lparr>storage_size := 6 * 1024 * 1024 * 1024 + 1\<rparr>"
  let ?s2 = "initial_stats\<lparr>storage_size := 2 * 1024 * 1024 * 1024\<rparr>"
  have h: "\<bar>repository_size initial_stats\<bar> < 2 ^ 53" by (simp add: initial_stats_def)
  note e = size_thresholds_strict_and_consistent[of demo_project "''team/app''" "[]" 0
      initial_stats 0 _ _ _ silent_api 1]
  from e h obtain r6 where r6: "project_stats demo_project ''team/app'' [] 0 ?s6 0 = Some r6"
    by blast
  from e h obtain r2 where r2: "project_stats demo_project ''team/app'' [] 0 ?s2 0 = Some r2"
    by blast
  note t6 = size_thresholds_strict_and_consistent[of demo_project "''team/app''" "[]" 0
      initial_stats 0 r2 r2 r6 silent_api 1]
  have a: "map_of r6 ''exceeds_6gb'' = Some (PyBool True)"
    and b: "map_of r6 ''exceeds_2gb'' = Some (PyBool True)"
    using t6 r6 by blast+
  have c: "map_of r2 ''exceeds_2gb'' = Some (PyBool False)" using t6 r2 by blast
  have fs: "final_sizes initial_stats demo_project = (7, 9)"
    by (simp add: final_sizes_def initial_stats_def demo_listing_sizes)
  have "bytes_to_mb (Some 7) \<noteq> None" by (rule bytes_to_mb_returns) simp
  then have "project_stats demo_project ''team/app'' [] 0 initial_stats 0 \<noteq> None"
    using e bytes_to_mb_nine by (simp add: fs)
  then obtain r0 where r0: "project_stats demo_project ''team/app'' [] 0 initial_stats 0 = Some r0"
    by blast
  note t0 = size_thresholds_strict_and_consistent[of demo_project "''team/app''" "[]" 0
      initial_stats 0 r0 r2 r6 silent_api 1]
  have "map_of r0 ''total_size_mb'' = map_option PyFloat (bytes_to_mb (Some (snd (final_sizes initial_stats demo_project))))"
    using t0 r0 by blast
  then have d: "map_of r0 ''total_size_mb'' = Some (PyFloat 0)"
    by (simp add: fs bytes_to_mb_nine)
  from h a b c d r6 r2 r0 show ?thesis by simp
qed

text \<open>
  C10: the statistics of the listing entry are used only when the API repository size and
  the API storage size are both zero.  When one of the two is not zero the final sizes are
  the API's, whatever the listing entry holds, and the field that is zero stays zero in
  the record (0 MB, both flags unset).  For sizes below \<open>2^53\<close> bytes the record is built.
\<close>

theorem statistics_fallback_only_when_both_zero:
  "(repository_size rs = 0 \<and> storage_size rs = 0 \<longrightarrow> final_sizes rs p = listing_sizes p) \<and>
   (repository_size rs \<noteq> 0 \<or> storage_size rs \<noteq> 0 \<longrightarrow>
      final_sizes rs p = (repository_size rs, storage_size rs) \<and>
      final_sizes rs p' = final_sizes rs p) \<and>
   (repository_size rs \<noteq> 0 \<and> storage_size rs = 0 \<and>
    project_stats p path cs tc rs mr = Some r \<longrightarrow>
      map_of r ''total_size_mb'' = Some (PyFloat 0) \<and>
      map_of r ''exceeds_2gb'' = Some (PyBool False) \<and>
      map_of r ''exceeds_6gb'' = Some (PyBool False) \<and>
      map_of r ''repository_size_mb''
        = map_option PyFloat (bytes_to_mb (Some (repository_size rs)))) \<and>
   (repository_size rs = 0 \<and> storage_size rs \<noteq> 0 \<and>
    project_stats p path cs tc rs mr = Some r \<longrightarrow>
      map_of r ''repository_size_mb'' = Some (PyFloat 0) \<and>
      map_of r ''total_size_mb''
        = map_option PyFloat (bytes_to_mb (Some (storage_size rs)))) \<and>
   ((repository_size rs \<noteq> 0 \<or> storage_size rs \<noteq> 0) \<and>
    \<bar>repository_size rs\<bar> < 2 ^ 53 \<and> \<bar>storage_size rs\<bar> < 2 ^ 53 \<longrightarrow>
      project_stats p path cs tc rs mr \<noteq> None)"
proof (intro conjI impI)
  assume "repository_size rs = 0 \<and> storage_size rs = 0"
  then show "final_sizes rs p = listing_sizes p" by (simp add: final_sizes_cases)
next
  assume "repository_size rs \<noteq> 0 \<or> storage_size rs \<noteq> 0"
  then show "final_sizes rs p = (repository_size rs, storage_size rs)"
    and "final_sizes rs p' = final_sizes rs p"
    by (auto simp: final_sizes_cases)
next
  assume a: "repository_size rs \<noteq> 0 \<and> storage_size rs = 0 \<and>
    project_stats p path cs tc rs mr = Some r"
  then have f: "final_sizes rs p = (repository_size rs, 0)" by (simp add: final_sizes_cases)
  from a have r: "project_stats p path cs tc rs mr = Some r" by simp
  show "map_of r ''total_size_mb'' = Some (PyFloat 0)"
    using project_stats_cells(3)[OF r] by (simp add: f bytes_to_mb_zero)
  show "map_of r ''exceeds_2gb'' = Some (PyBool False)"
    using project_stats_cells(1)[OF r] by (simp add: f)
  show "map_of r ''exceeds_6gb'' = Some (PyBool False)"
    using project_stats_cells(2)[OF r] by (simp add: f)
  show "map_of r ''repository_size_mb''
        = map_option PyFloat (bytes_to_mb (Some (repository_size rs)))"
    using project_stats_cells(4)[OF r] by (simp add: f)
next
  assume a: "repository_size rs = 0 \<and> storage_size rs \<noteq> 0 \<and>
    project_stats p path cs tc rs mr = Some r"
  then have f: "final_sizes rs p = (0, storage_size rs)" by (simp add: final_sizes_cases)
  from a have r: "project_stats p path cs tc rs mr = Some r" by simp
  show "map_of r ''repository_size_mb'' = Some (PyFloat 0)"
    using project_stats_cells(4)[OF r] by (simp add: f bytes_to_mb_zero)
  show "map_of r ''total_size_mb''
        = map_option PyFloat (bytes_to_mb (Some (storage_size rs)))"
    using project_stats_cells(3)[OF r] by (simp add: f)
next
  assume a: "(repository_size rs \<noteq> 0 \<or> storage_size rs \<noteq> 0) \<and>
    \<bar>repository_size rs\<bar> < 2 ^ 53 \<and> \<bar>storage_size rs\<bar> < 2 ^ 53"
  then have f: "final_sizes rs p = (repository_size rs, storage_size rs)"
    by (auto simp: final_sizes_cases)
  have "bytes_to_mb (Some (repository_size rs)) \<noteq> None"
    and "bytes_to_mb (Some (storage_size rs)) \<noteq> None"
    using a by (simp_all add: bytes_to_mb_returns)
  with project_stats_emitted[of p path cs tc rs mr, unfolded f fst_conv snd_conv]
  show "project_stats p path cs tc rs mr \<noteq> None" by blast
qed

theorem statistics_fallback_witness:
  "listing_sizes demo_project = (7, 9) \<and>
   final_sizes initial_stats demo_project = (7, 9) \<and>
   final_sizes (initial_stats\<lparr>repository_size := 5\<rparr>) demo_project = (5, 0) \<and>
   map_option (\<lambda>r. map_of r ''total_size_mb'')
     (project_stats demo_project ''team/app'' [] 0 (initial_stats\<lparr>repository_size := 5\<rparr>) 0)
     = Some (Some (PyFloat 0)) \<and>
   final_sizes (initial_stats\<lparr>storage_size := 5\<rparr>) demo_project = (0, 5) \<and>
   map_option (\<lambda>r. map_of r ''repository_size_mb'')
     (project_stats demo_project ''team/app'' [] 0 (initial_stats\<lparr>storage_size := 5\<rparr>) 0)
     = Some (Some (PyFloat 0))"
proof -
  let ?sr = "initial_stats\<lparr>repository_size := 5\<rparr>"
  let ?ss = "initial_stats\<lparr>storage_size := 5\<rparr>"
  note l = demo_listing_sizes
  note a = statistics_fallback_only_when_both_zero[of initial_stats demo_project demo_project
      "''team/app''" "[]" 0 0]
  note b = statistics_fallback_only_when_both_zero[of ?sr demo_project demo_project
      "''team/app''" "[]" 0 0]
  note c = statistics_fallback_only_when_both_zero[of ?ss demo_project demo_project
      "''team/app''" "[]" 0 0]
  have ha: "repository_size initial_stats = 0 \<and> storage_size initial_stats = 0"
    by (simp add: initial_stats_def)
  have hb: "repository_size ?sr \<noteq> 0 \<and> storage_size ?sr = 0"
    "\<bar>repository_size ?sr\<bar> < 2 ^ 53 \<and> \<bar>storage_size ?sr\<bar> < 2 ^ 53"
    by (simp_all add: initial_stats_def)
  have hc: "repository_size ?ss = 0 \<and> storage_size ?ss \<noteq> 0"
    "\<bar>repository_size ?ss\<bar> < 2 ^ 53 \<and> \<bar>storage_size ?ss\<bar> < 2 ^ 53"
    by (simp_all add: initial_stats_def)
  have 1: "final_sizes initial_stats demo_project = (7, 9)" using a ha l by simp
  have 2: "final_sizes ?sr demo_project = (5, 0)"
    using b hb by (simp add: initial_stats_def)
  from b hb obtain rb where rb: "project_stats demo_project ''team/app'' [] 0 ?sr 0 = Some rb"
    by blast
  have 3: "map_of rb ''total_size_mb'' = Some (PyFloat 0)"
    using b[of rb] hb rb by blast
  have 4: "final_sizes ?ss demo_project = (0, 5)"
    using c hc by (simp add: initial_stats_def)
  from c hc obtain rc where rc: "project_stats demo_project ''team/app'' [] 0 ?ss 0 = Some rc"
    by blast
  have 5: "map_of rc ''repository_size_mb'' = Some (PyFloat 0)"
    using c[of rc] hc rc by blast
  from l 1 2 3 4 5 rb rc show ?thesis by simp
qed

section \<open>Properties of the project filter\<close>

lemma filter_rows_no_match:
  "\<forall>r\<in>set rows. \<not> row_matches values r \<Longrightarrow>
   filter_rows values rows acc = None \<or> filter_rows values rows acc = Some acc"
proof (induction rows arbitrary: acc)
  case Nil
  then show ?case by simp
next
  case (Cons r rows)
  then have nm: "\<not> row_matches values r" and rest: "\<forall>r\<in>set rows. \<not> row_matches values r"
    by simp_all
  show ?case
  proof (cases "get_or (r ''Migrate Repo'') (Some [])")
    case None
    then show ?thesis by simp
  next
    case (Some mv)
    with nm have "strip mv \<notin> set values" by (simp add: row_matches_def)
    with Some Cons.IH[OF rest, of acc] show ?thesis
      by (simp add: Let_def split: option.splits)
  qed
qed

lemma load_project_filter_no_match:
  "\<forall>r\<in>set rows. \<not> row_matches values r \<Longrightarrow>
   load_project_filter project_list_file values (Csv fieldnames rows) = None"
  using filter_rows_no_match[of rows "values" "{}"]
  by (auto simp: load_project_filter_def split: option.splits)

text \<open>
  C3: when no row of the filter file has a "Migrate Repo" cell that is one of the
  configured values, \<^verbatim>\<open>load_project_filter\<close> returns \<open>None\<close> and the projects that reach
  the statistics loop are all the discovered projects: the filter is ignored, not applied
  as an empty allow-list.
\<close>

theorem filter_without_match_is_ignored:
  "(\<forall>row\<in>set rows. \<not> row_matches (dr_migrate_repo_values r) row) \<and>
   dr_filter_file r = Csv fieldnames rows \<longrightarrow>
     load_project_filter (dr_project_list_file r) (dr_migrate_repo_values r) (dr_filter_file r) = None \<and>
     projects_to_process r all_projects = all_projects"
proof (intro impI)
  assume a: "(\<forall>row\<in>set rows. \<not> row_matches (dr_migrate_repo_values r) row) \<and>
   dr_filter_file r = Csv fieldnames rows"
  then have "load_project_filter (dr_project_list_file r) (dr_migrate_repo_values r) (dr_filter_file r) = None"
    using load_project_filter_no_match[of rows "dr_migrate_repo_values r" "dr_project_list_file r" fieldnames]
    by simp
  then show "load_project_filter (dr_project_list_file r) (dr_migrate_repo_values r) (dr_filter_file r) = None \<and>
     projects_to_process r all_projects = all_projects"
    by (simp add: projects_to_process_def apply_project_filter_def)
qed

theorem filter_without_match_witness:
  "\<not> row_matches [''Migrate''] [''Name'' \<mapsto> Some ''app'', ''Migrate Repo'' \<mapsto> Some ''Skip''] \<and>
   \<not> row_matches [''Migrate''] [''Name'' \<mapsto> Some ''lib'', ''Migrate Repo'' \<mapsto> Some '' Later ''] \<and>
   projects_to_process demo_run [demo_project] = [demo_project]"
proof -
  have s1: "strip ''Skip'' = ''Skip''" and s2: "strip '' Later '' = ''Later''"
    by (simp_all add: strip_def is_space_def)
  have m1: "\<not> row_matches [''Migrate''] [''Name'' \<mapsto> Some ''app'', ''Migrate Repo'' \<mapsto> Some ''Skip'']"
    by (simp add: row_matches_def get_or_def s1)
  have m2: "\<not> row_matches [''Migrate''] [''Name'' \<mapsto> Some ''lib'', ''Migrate Repo'' \<mapsto> Some '' Later '']"
    by (simp add: row_matches_def get_or_def s2)
  have v: "dr_migrate_repo_values demo_run = [''Migrate'']"
    and f: "dr_filter_file demo_run = Csv (Some [''Name'', ''Migrate Repo'']) demo_filter_rows"
    by (simp_all add: demo_run_def)
  have "\<forall>row\<in>set demo_filter_rows. \<not> row_matches (dr_migrate_repo_values demo_run) row"
    using m1 m2 by (simp add: v demo_filter_rows_def)
  with f filter_without_match_is_ignored[of demo_filter_rows demo_run "Some [''Name'', ''Migrate Repo'']" "[demo_project]"]
  have "projects_to_process demo_run [demo_project] = [demo_project]" by blast
  with m1 m2 show ?thesis by blast
qed

section \<open>Properties of the object count\<close>


lemma object_count_ignores_itself:
  "get_repository_object_count env pid (s\<lparr>object_count := x\<rparr>) = get_repository_object_count env pid s"
  by (simp add: get_repository_object_count_def Let_def split: sum.splits)

text \<open>
  C8, as the claim states it, fails: when the tag request times out the estimate is the
  commit count plus the file count of the default branch (here 5), below the additive
  total, which is at least 8 here whatever the tag and merge-request counts are.
\<close>

theorem object_count_counterexample:
  "tags_head silent_api 1 = Raised Timeout \<and>
   get_repository_object_count silent_api 1 (initial_stats\<lparr>commit_count := 5, branch_count := 2\<rparr>) = 5 \<and>
   commit_count (initial_stats\<lparr>commit_count := 5, branch_count := 2\<rparr>)
     + branch_count (initial_stats\<lparr>commit_count := 5, branch_count := 2\<rparr>)
     + all_branches_file_count (initial_stats\<lparr>commit_count := 5, branch_count := 2\<rparr>)
     + max (all_branches_file_count (initial_stats\<lparr>commit_count := 5, branch_count := 2\<rparr>) div 10) 1 = 8"
  by (simp add: silent_api_def get_repository_object_count_def total_header_count_def initial_stats_def)

text \<open>
  C8, amended: when the tag lookup and the merge-request lookup both complete (a lookup
  that is not a 200 with an \<^verbatim>\<open>X-Total\<close> header counts 0), the estimate is commit count
  + branch count + tag count + file count + max (file count div 10) 1 + merge-request
  count, the file count being the number of unique files across the checked branches.
  When one of the two lookups raises, or its \<^verbatim>\<open>X-Total\<close> is not a number, the estimate is
  the commit count plus the file count of the default branch.  The \<^verbatim>\<open>object_count\<close> of
  the statistics is this estimate for the statistics' own counts.
\<close>

theorem object_count_estimate:
  "(total_header_count (tags_head env pid) = Inr tag_count \<and>
    total_header_count (merge_requests_head env pid) = Inr mr_count \<longrightarrow>
      get_repository_object_count env pid s
        = commit_count s + branch_count s + tag_count + all_branches_file_count s
          + max (all_branches_file_count s div 10) 1 + mr_count) \<and>
   (total_header_count (tags_head env pid) = Inl () \<or>
    total_header_count (merge_requests_head env pid) = Inl () \<longrightarrow>
      get_repository_object_count env pid s = commit_count s + file_count s) \<and>
   object_count (collect_sub_queries env pid s)
     = get_repository_object_count env pid (collect_sub_queries env pid s)"
proof (intro conjI impI)
  assume "total_header_count (tags_head env pid) = Inr tag_count \<and>
    total_header_count (merge_requests_head env pid) = Inr mr_count"
  then show "get_repository_object_count env pid s
        = commit_count s + branch_count s + tag_count + all_branches_file_count s
          + max (all_branches_file_count s div 10) 1 + mr_count"
    by (simp add: get_repository_object_count_def Let_def)
next
  assume "total_header_count (tags_head env pid) = Inl () \<or>
    total_header_count (merge_requests_head env pid) = Inl ()"
  then show "get_repository_object_count env pid s = commit_count s + file_count s"
    by (auto simp: get_repository_object_count_def Let_def split: sum.splits)
next
  show "object_count (collect_sub_queries env pid s)
     = get_repository_object_count env pid (collect_sub_queries env pid s)"
    by (simp add: collect_sub_queries_def Let_def object_count_ignores_itself)
qed

theorem object_count_witness:
  "total_header_count (tags_head counting_api 1) = Inr 3 \<and>
   total_header_count (merge_requests_head counting_api 1) = Inr 4 \<and>
   get_repository_object_count counting_api 1 demo_stats = 41 \<and>
   total_header_count (tags_head silent_api 1) = Inl () \<and>
   get_repository_object_count silent_api 1 demo_stats = 25"
proof -
  have i3: "py_int ''3'' = Some 3" and i4: "py_int ''4'' = Some 4"
    by (simp_all add: py_int_def strip_def is_space_def is_digit_def digits_value_def)
  have t: "total_header_count (tags_head counting_api 1) = Inr 3"
    by (simp add: counting_api_def total_header_count_def i3)
  have m: "total_header_count (merge_requests_head counting_api 1) = Inr 4"
    by (simp add: counting_api_def total_header_count_def i4)
  have u: "total_header_count (tags_head silent_api 1) = Inl ()"
    by (simp add: silent_api_def total_header_count_def)
  have v: "commit_count demo_stats = 5" "branch_count demo_stats = 2" "file_count demo_stats = 20"
    "all_branches_file_count demo_stats = 25"
    by (simp_all add: demo_stats_def initial_stats_def)
  have "get_repository_object_count counting_api 1 demo_stats = 41"
    using object_count_estimate[of counting_api 1 3 4 demo_stats] t m by (simp add: v)
  moreover have "get_repository_object_count silent_api 1 demo_stats = 25"
    using object_count_estimate[of silent_api 1 0 0 demo_stats] u by (simp add: v)
  ultimately show ?thesis using t m u by blast
qed

section \<open>Properties of the main blocks\<close>

lemma not_resolved_cases:
  "\<not> token_resolved env_token file \<Longrightarrow>
   resolve_token env_token file = Inl 1 \<or>
   (\<exists>t. resolve_token env_token file = Inr t \<and> get_or t [] = [])"
  by (auto simp: token_resolved_def resolve_token_def split: sum.splits token_file.splits if_splits)

lemma resolved_cases:
  "token_resolved env_token file \<Longrightarrow>
   \<exists>t. resolve_token env_token file = Inr t \<and> get_or t [] \<noteq> []"
  by (auto simp: token_resolved_def split: sum.splits)

lemma main_groups_no_token:
  "\<not> token_resolved (gr_env_token g) (gr_token_file g) \<Longrightarrow> main_groups fuel g = Some (exit_with 1)"
  using not_resolved_cases[of "gr_env_token g" "gr_token_file g"]
  by (auto simp: main_groups_def)

lemma details_statements_no_token:
  "\<not> token_resolved (dr_env_token d) (dr_token_file d) \<Longrightarrow> details_statements fuel d = Some (exit_with 1)"
  using not_resolved_cases[of "dr_env_token d" "dr_token_file d"]
  by (auto simp: details_statements_def)

lemma main_groups_after_fetch:
  "token_resolved (gr_env_token g) (gr_token_file g) \<Longrightarrow>
   main_groups fuel g =
     (case fetch_all_groups fuel (gr_groups_api g) of
        None \<Rightarrow> None
      | Some None \<Rightarrow> Some (exit_with 1)
      | Some (Some groups) \<Rightarrow>
          if groups = [] then Some (exit_with 0)
          else Some (write_report (List.map_filter (process_group (gr_api g)) groups)))"
  using resolved_cases[of "gr_env_token g" "gr_token_file g"]
  by (auto simp: main_groups_def)

lemma details_statements_after_fetch:
  "token_resolved (dr_env_token d) (dr_token_file d) \<Longrightarrow>
   details_statements fuel d =
     (case fetch_all_groups fuel (dr_groups_api d) of
        None \<Rightarrow> None
      | Some None \<Rightarrow> Some (exit_with 1)
      | Some (Some groups) \<Rightarrow>
          if groups = [] then Some (exit_with 0)
          else (case collect_projects fuel (dr_projects_api d) groups [] of
                  None \<Rightarrow> None
                | Some all_projects \<Rightarrow>
                    let projects = projects_to_process d all_projects
                    in if projects = [] then Some (exit_with 0)
                       else Some (write_report
                                    (List.map_filter (process_project (dr_api d)) projects))))"
  using resolved_cases[of "dr_env_token d" "dr_token_file d"]
  by (auto simp: details_statements_def)

lemma main_details_syntax_error: "main_details fuel d = Some (exit_with 1)"
  by (simp add: main_details_def run_script_def details_source_def)

lemma fetch_empty_listing: "fetch_pages (Suc n) (paged_listing [] k) 1 [] = Some (Some [])"
  by (simp add: paged_listing_def)

lemma fetch_single_listing: "fetch_pages (Suc n) (paged_listing [x] (Suc k)) 1 [] = Some (Some [x])"
  by (simp add: paged_listing_def has_next_page_def)

lemma fetch_all_projects_empty:
  "fetch_all_projects (Suc n) (\<lambda>g. paged_listing []) group_name = Some (Some [])"
  by (simp add: fetch_all_projects_def paged_listing_def)

text \<open>
  C6: \<^verbatim>\<open>gitlab-groups.py\<close> does what the claim says: exit code 1, nothing written, when
  no token can be resolved and when the listing of the groups fails; exit code 0,
  nothing written, when the listing returns no group.  The statements of
  \<^verbatim>\<open>gitlab-details.py\<close> say the same, and exit code 0 too when no project is left to
  process after the filter; but the file does not compile, so every run of it exits with
  code 1, also where the claim says code 0.
\<close>

theorem process_exit_codes:
  "(\<not> token_resolved (gr_env_token g) (gr_token_file g) \<longrightarrow>
      main_groups fuel g = Some \<lparr>exit_code = 1, written = None\<rparr>) \<and>
   (token_resolved (gr_env_token g) (gr_token_file g) \<and>
    fetch_all_groups fuel (gr_groups_api g) = Some None \<longrightarrow>
      main_groups fuel g = Some \<lparr>exit_code = 1, written = None\<rparr>) \<and>
   (token_resolved (gr_env_token g) (gr_token_file g) \<and>
    fetch_all_groups fuel (gr_groups_api g) = Some (Some []) \<longrightarrow>
      main_groups fuel g = Some \<lparr>exit_code = 0, written = None\<rparr>) \<and>
   main_details fuel d = Some \<lparr>exit_code = 1, written = None\<rparr> \<and>
   (\<not> token_resolved (dr_env_token d) (dr_token_file d) \<longrightarrow>
      details_statements fuel d = Some \<lparr>exit_code = 1, written = None\<rparr>) \<and>
   (token_resolved (dr_env_token d) (dr_token_file d) \<and>
    fetch_all_groups fuel (dr_groups_api d) = Some None \<longrightarrow>
      details_statements fuel d = Some \<lparr>exit_code = 1, written = None\<rparr>) \<and>
   (token_resolved (dr_env_token d) (dr_token_file d) \<and>
    fetch_all_groups fuel (dr_groups_api d) = Some (Some []) \<longrightarrow>
      details_statements fuel d = Some \<lparr>exit_code = 0, written = None\<rparr>) \<and>
   (token_resolved (dr_env_token d) (dr_token_file d) \<and>
    fetch_all_groups fuel (dr_groups_api d) = Some (Some groups) \<and>
    collect_projects fuel (dr_projects_api d) groups [] = Some all_projects \<and>
    projects_to_process d all_projects = [] \<longrightarrow>
      details_statements fuel d = Some \<lparr>exit_code = 0, written = None\<rparr>)"
proof (intro conjI impI)
  assume "\<not> token_resolved (gr_env_token g) (gr_token_file g)"
  then show "main_groups fuel g = Some \<lparr>exit_code = 1, written = None\<rparr>"
    by (simp add: main_groups_no_token exit_with_def)
next
  assume "token_resolved (gr_env_token g) (gr_token_file g) \<and>
    fetch_all_groups fuel (gr_groups_api g) = Some None"
  then show "main_groups fuel g = Some \<lparr>exit_code = 1, written = None\<rparr>"
    by (simp add: main_groups_after_fetch exit_with_def)
next
  assume "token_resolved (gr_env_token g) (gr_token_file g) \<and>
    fetch_all_groups fuel (gr_groups_api g) = Some (Some [])"
  then show "main_groups fuel g = Some \<lparr>exit_code = 0, written = None\<rparr>"
    by (simp add: main_groups_after_fetch exit_with_def)
next
  show "main_details fuel d = Some \<lparr>exit_code = 1, written = None\<rparr>"
    by (simp add: main_details_syntax_error exit_with_def)
next
  assume "\<not> token_resolved (dr_env_token d) (dr_token_file d)"
  then show "details_statements fuel d = Some \<lparr>exit_code = 1, written = None\<rparr>"
    by (simp add: details_statements_no_token exit_with_def)
next
  assume "token_resolved (dr_env_token d) (dr_token_file d) \<and>
    fetch_all_groups fuel (dr_groups_api d) = Some None"
  then show "details_statements fuel d = Some \<lparr>exit_code = 1, written = None\<rparr>"
    by (simp add: details_statements_after_fetch exit_with_def)
next
  assume "token_resolved (dr_env_token d) (dr_token_file d) \<and>
    fetch_all_groups fuel (dr_groups_api d) = Some (Some [])"
  then show "details_statements fuel d = Some \<lparr>exit_code = 0, written = None\<rparr>"
    by (simp add: details_statements_after_fetch exit_with_def)
next
  assume a: "token_resolved (dr_env_token d) (dr_token_file d) \<and>
    fetch_all_groups fuel (dr_groups_api d) = Some (Some groups) \<and>
    collect_projects fuel (dr_projects_api d) groups [] = Some all_projects \<and>
    projects_to_process d all_projects = []"
  show "details_statements fuel d = Some \<lparr>exit_code = 0, written = None\<rparr>"
  proof (cases "groups = []")
    case True
    with a show ?thesis by (simp add: details_statements_after_fetch exit_with_def)
  next
    case False
    with a show ?thesis by (simp add: details_statements_after_fetch exit_with_def Let_def)
  qed
qed

theorem process_exit_codes_witness:
  "\<not> token_resolved None NoTokenFile \<and>
   main_groups 1 (demo_groups_run\<lparr>gr_env_token := None\<rparr>) = Some \<lparr>exit_code = 1, written = None\<rparr> \<and>
   token_resolved (Some ''glpat-0123456789'') NoTokenFile \<and>
   fetch_all_groups 1 (\<lambda>k q. Raised ConnectionError :: group list http) = Some None \<and>
   main_groups 1 (demo_groups_run\<lparr>gr_groups_api := (\<lambda>k q. Raised ConnectionError)\<rparr>)
     = Some \<lparr>exit_code = 1, written = None\<rparr> \<and>
   fetch_all_groups 1 (paged_listing ([] :: group list)) = Some (Some []) \<and>
   main_groups 1 demo_groups_run = Some \<lparr>exit_code = 0, written = None\<rparr> \<and>
   details_statements 1 (demo_run\<lparr>dr_groups_api := paged_listing []\<rparr>)
     = Some \<lparr>exit_code = 0, written = None\<rparr> \<and>
   main_details 1 (demo_run\<lparr>dr_groups_api := paged_listing []\<rparr>)
     = Some \<lparr>exit_code = 1, written = None\<rparr> \<and>
   fetch_all_groups 1 (paged_listing [demo_group]) = Some (Some [demo_group]) \<and>
   collect_projects 1 (dr_projects_api selective_run) [demo_group] []
     = Some [tag_project demo_group demo_project] \<and>
   projects_to_process selective_run [tag_project demo_group demo_project] = [] \<and>
   details_statements 1 selective_run = Some \<lparr>exit_code = 0, written = None\<rparr> \<and>
   main_details 1 selective_run = Some \<lparr>exit_code = 1, written = None\<rparr>"
proof -
  have nt: "\<not> token_resolved None NoTokenFile"
    by (simp add: token_resolved_def resolve_token_def get_or_def)
  have tk: "token_resolved (Some ''glpat-0123456789'') NoTokenFile"
    by (simp add: token_resolved_def resolve_token_def get_or_def)
  have ff: "fetch_all_groups 1 (\<lambda>k q. Raised ConnectionError :: group list http) = Some None"
    by (simp add: fetch_all_groups_def)
  have fe: "fetch_all_groups 1 (paged_listing ([] :: group list)) = Some (Some [])"
    using fetch_empty_listing[of 0 50] by (simp add: fetch_all_groups_def)
  have fg: "fetch_all_groups 1 (paged_listing [demo_group]) = Some (Some [demo_group])"
    using fetch_single_listing[of 0 demo_group 49] by (simp add: fetch_all_groups_def)
  have cs: "collect_projects 1 (dr_projects_api selective_run) [demo_group] []
     = Some [tag_project demo_group demo_project]"
    by (simp add: selective_run_def fetch_all_projects_def paged_listing_def has_next_page_def)
  have ps: "projects_to_process selective_run [tag_project demo_group demo_project] = []"
    by code_simp
  note g1 = process_exit_codes[of "demo_groups_run\<lparr>gr_env_token := None\<rparr>"
      1 demo_run "[]" "[]"]
  note g2 = process_exit_codes[of "demo_groups_run\<lparr>gr_groups_api := (\<lambda>k q. Raised ConnectionError)\<rparr>"
      1 demo_run "[]" "[]"]
  note g3 = process_exit_codes[of demo_groups_run
      1 "demo_run\<lparr>dr_groups_api := paged_listing []\<rparr>" "[]" "[]"]
  note g5 = process_exit_codes[of demo_groups_run 1 selective_run "[demo_group]"
      "[tag_project demo_group demo_project]"]
  have 1: "main_groups 1 (demo_groups_run\<lparr>gr_env_token := None\<rparr>) = Some \<lparr>exit_code = 1, written = None\<rparr>"
    using g1 nt by (simp add: demo_groups_run_def)
  have 3: "main_groups 1 (demo_groups_run\<lparr>gr_groups_api := (\<lambda>k q. Raised ConnectionError)\<rparr>)
     = Some \<lparr>exit_code = 1, written = None\<rparr>"
    using g2 tk ff by (simp add: demo_groups_run_def)
  have 5: "main_groups 1 demo_groups_run = Some \<lparr>exit_code = 0, written = None\<rparr>"
    using g3 tk fe by (simp add: demo_groups_run_def)
  have 6: "details_statements 1 (demo_run\<lparr>dr_groups_api := paged_listing []\<rparr>)
     = Some \<lparr>exit_code = 0, written = None\<rparr>"
    using g3 tk fe by (simp add: demo_run_def)
  have 7: "main_details 1 (demo_run\<lparr>dr_groups_api := paged_listing []\<rparr>)
     = Some \<lparr>exit_code = 1, written = None\<rparr>"
    using g3 by blast
  have e: "dr_env_token selective_run = Some ''glpat-0123456789''"
    "dr_token_file selective_run = NoTokenFile"
    "dr_groups_api selective_run = paged_listing [demo_group]"
    by (simp_all add: selective_run_def demo_run_def)
  have 8: "details_statements 1 selective_run = Some \<lparr>exit_code = 0, written = None\<rparr>"
    using g5 tk fg cs ps by (simp only: e)
  have 9: "main_details 1 selective_run = Some \<lparr>exit_code = 1, written = None\<rparr>"
    using g5 by blast
  from nt tk ff fe fg cs ps 1 3 5 6 7 8 9 show ?thesis by blast
qed

section \<open>Properties of the scan across branches\<close>

lemma stop_snoc:
  assumes inv: "\<forall>pre r post. xs = pre @ r # post \<and> size_lookup_found_large env r
                  \<longrightarrow> (\<forall>r'\<in>set post. \<not> is_size_lookup r')"
    and fresh: "is_size_lookup x \<Longrightarrow> \<not> (\<exists>r\<in>set xs. size_lookup_found_large env r)"
  shows "\<forall>pre r post. xs @ [x] = pre @ r # post \<and> size_lookup_found_large env r
                  \<longrightarrow> (\<forall>r'\<in>set post. \<not> is_size_lookup r')"
proof (intro allI impI)
  fix pre r post
  assume a: "xs @ [x] = pre @ r # post \<and> size_lookup_found_large env r"
  show "\<forall>r'\<in>set post. \<not> is_size_lookup r'"
  proof (cases post rule: rev_cases)
    case Nil
    then show ?thesis by simp
  next
    case (snoc post' y)
    with a have "xs @ [x] = (pre @ r # post') @ [y]" by simp
    then have xs: "xs = pre @ r # post'" and xy: "x = y" by simp_all
    from inv xs a have p: "\<forall>r'\<in>set post'. \<not> is_size_lookup r'" by blast
    from xs a have "\<exists>r\<in>set xs. size_lookup_found_large env r" by auto
    with fresh have "\<not> is_size_lookup x" by blast
    with p snoc xy show ?thesis by simp
  qed
qed

lemma invariant_tree_request:
  assumes "scan_invariant env pid refs s" "ref \<in> refs" "1 \<le> page" "page \<le> 5"
  shows "scan_invariant env pid refs (s\<lparr>issued := issued s @ [TreePage pid ref page]\<rparr>)"
proof -
  have 1: "\<forall>r\<in>set (issued s @ [TreePage pid ref page]). request_within pid refs r"
    using assms by (auto simp: scan_invariant_def request_within_def)
  have 2: "large_file_found s \<longleftrightarrow>
      (\<exists>r\<in>set (issued s @ [TreePage pid ref page]). size_lookup_found_large env r)"
    using assms(1) by (auto simp: scan_invariant_def size_lookup_found_large_def)
  have 3: "\<forall>pre r post. issued s @ [TreePage pid ref page] = pre @ r # post \<and> size_lookup_found_large env r
                  \<longrightarrow> (\<forall>r'\<in>set post. \<not> is_size_lookup r')"
  proof (rule stop_snoc)
    show "\<forall>pre r post. issued s = pre @ r # post \<and> size_lookup_found_large env r
                  \<longrightarrow> (\<forall>r'\<in>set post. \<not> is_size_lookup r')"
      using assms(1) unfolding scan_invariant_def by blast
    show "is_size_lookup (TreePage pid ref page) \<Longrightarrow> \<not> (\<exists>r\<in>set (issued s). size_lookup_found_large env r)"
      by (simp add: is_size_lookup_def)
  qed
  from 1 2 3 show ?thesis unfolding scan_invariant_def by simp
qed

lemma invariant_size_request:
  assumes "scan_invariant env pid refs s" "ref \<in> refs" "has_large_file_extension file_path"
    "\<not> large_file_found s"
  shows "scan_invariant env pid refs
           (s\<lparr>issued := issued s @ [FileSize pid file_path ref],
              large_file_found := file_size_exceeds env pid file_path ref\<rparr>)"
proof -
  have none: "\<not> (\<exists>r\<in>set (issued s). size_lookup_found_large env r)"
    using assms(1,4) unfolding scan_invariant_def by blast
  have 1: "\<forall>r\<in>set (issued s @ [FileSize pid file_path ref]). request_within pid refs r"
    using assms by (auto simp: scan_invariant_def request_within_def)
  have 2: "file_size_exceeds env pid file_path ref \<longleftrightarrow>
      (\<exists>r\<in>set (issued s @ [FileSize pid file_path ref]). size_lookup_found_large env r)"
    using none by (auto simp: size_lookup_found_large_def)
  have 3: "\<forall>pre r post. issued s @ [FileSize pid file_path ref] = pre @ r # post \<and> size_lookup_found_large env r
                  \<longrightarrow> (\<forall>r'\<in>set post. \<not> is_size_lookup r')"
  proof (rule stop_snoc)
    show "\<forall>pre r post. issued s = pre @ r # post \<and> size_lookup_found_large env r
                  \<longrightarrow> (\<forall>r'\<in>set post. \<not> is_size_lookup r')"
      using assms(1) unfolding scan_invariant_def by blast
    show "is_size_lookup (FileSize pid file_path ref) \<Longrightarrow> \<not> (\<exists>r\<in>set (issued s). size_lookup_found_large env r)"
      using none by simp
  qed
  from 1 2 3 show ?thesis unfolding scan_invariant_def by simp
qed

lemma invariant_unique_files:
  "scan_invariant env pid refs (s\<lparr>unique_files := u\<rparr>) = scan_invariant env pid refs s"
  by (simp add: scan_invariant_def)

lemma scan_item_invariant:
  assumes "scan_invariant env pid refs s" "ref \<in> refs"
  shows "scan_invariant env pid refs (scan_item env pid ref s item)"
proof (cases "item_type item = Some ''blob''")
  case False
  then show ?thesis using assms by (simp add: scan_item_def)
next
  case True
  define file_path where "file_path = get_or (item_path item) []"
  define s1 where "s1 = (if file_path \<noteq> [] then s\<lparr>unique_files := insert file_path (unique_files s)\<rparr> else s)"
  have i1: "scan_invariant env pid refs s1"
    using assms(1) by (simp add: s1_def invariant_unique_files)
  show ?thesis
  proof (cases "\<not> large_file_found s1 \<and> file_path \<noteq> [] \<and> has_large_file_extension file_path")
    case False
    then have "scan_item env pid ref s item = s1"
      using True by (auto simp: scan_item_def Let_def file_path_def s1_def)
    with i1 show ?thesis by simp
  next
    case c: True
    have "scan_item env pid ref s item =
            s1\<lparr>issued := issued s1 @ [FileSize pid file_path ref],
               large_file_found := file_size_exceeds env pid file_path ref\<rparr>"
      using True c by (auto simp: scan_item_def Let_def file_path_def s1_def)
    moreover have "scan_invariant env pid refs
           (s1\<lparr>issued := issued s1 @ [FileSize pid file_path ref],
               large_file_found := file_size_exceeds env pid file_path ref\<rparr>)"
      using i1 assms(2) c by (intro invariant_size_request) simp_all
    ultimately show ?thesis by simp
  qed
qed

lemma scan_items_invariant:
  "scan_invariant env pid refs s \<Longrightarrow> ref \<in> refs \<Longrightarrow>
   scan_invariant env pid refs (foldl (scan_item env pid ref) s items)"
  by (induction items arbitrary: s) (simp_all add: scan_item_invariant)

lemma scan_branch_pages_invariant:
  "scan_invariant env pid refs s \<Longrightarrow> ref \<in> refs \<Longrightarrow> 1 \<le> page \<Longrightarrow>
   scan_invariant env pid refs (scan_branch_pages env pid ref page s)"
proof (induction env pid ref page s rule: scan_branch_pages.induct)
  case (1 env project_id branch_name page s)
  show ?case
  proof (cases "page \<le> 5")
    case False
    then show ?thesis using "1.prems" by (subst scan_branch_pages.simps) simp
  next
    case True
    define s1 where "s1 = s\<lparr>issued := issued s @ [TreePage project_id branch_name page]\<rparr>"
    have i1: "scan_invariant env project_id refs s1"
      unfolding s1_def using "1.prems" True by (intro invariant_tree_request) simp_all
    show ?thesis
    proof (cases "tree_get env project_id branch_name page")
      case (Raised e)
      then show ?thesis using True i1
        by (subst scan_branch_pages.simps) (simp add: s1_def Let_def)
    next
      case (Response st h body)
      show ?thesis
      proof (cases "st = 200 \<and> body \<noteq> None \<and> body \<noteq> Some []")
        case False
        then show ?thesis using True i1 Response
          by (subst scan_branch_pages.simps) (auto simp: s1_def Let_def split: option.splits)
      next
        case ok: True
        then obtain items where items: "body = Some items" "items \<noteq> []" by auto
        define s2 where "s2 = foldl (scan_item env project_id branch_name) s1 items"
        have i2: "scan_invariant env project_id refs s2"
          unfolding s2_def using i1 "1.prems" by (intro scan_items_invariant) simp_all
        show ?thesis
        proof (cases "has_next_page h")
          case False
          then have "scan_branch_pages env project_id branch_name page s = s2"
            using True Response ok items
            by (subst scan_branch_pages.simps) (simp add: s1_def s2_def Let_def)
          with i2 show ?thesis by simp
        next
          case nxt: True
          have eq: "scan_branch_pages env project_id branch_name page s
                = scan_branch_pages env project_id branch_name (page + 1) s2"
            using True Response ok items nxt
            by (subst scan_branch_pages.simps) (simp add: s1_def s2_def Let_def)
          have "scan_invariant env project_id refs
                  (scan_branch_pages env project_id branch_name (page + 1) s2)"
            by (rule "1.IH"[OF True s1_def Response _ items(1) items(2) s2_def])
               (use ok nxt i2 "1.prems" in simp_all)
          with eq show ?thesis by simp
        qed
      qed
    qed
  qed
qed


lemma length_map_filter_le: "length (List.map_filter f xs) \<le> length xs"
  by (induction xs) (auto split: option.splits)

lemma scan_branches_invariant:
  "scan_invariant env pid refs s \<Longrightarrow> set (List.map_filter b_name bs) \<subseteq> refs \<Longrightarrow>
   scan_invariant env pid refs (foldl (scan_branch env pid) s bs)"
proof (induction bs arbitrary: s)
  case Nil
  then show ?case by simp
next
  case (Cons b bs)
  have sub: "set (List.map_filter b_name bs) \<subseteq> refs"
    using Cons.prems(2) by (auto split: option.splits)
  have "scan_invariant env pid refs (scan_branch env pid s b)"
  proof (cases "b_name b")
    case None
    then show ?thesis using Cons.prems(1) by (simp add: scan_branch_def get_or_def)
  next
    case (Some n)
    then have "n \<in> refs" using Cons.prems(2) by simp
    then have "scan_invariant env pid refs (scan_branch_pages env pid n 1 s)"
      using Cons.prems(1) by (intro scan_branch_pages_invariant) simp_all
    with Some Cons.prems(1) show ?thesis
      by (simp add: scan_branch_def get_or_def Let_def)
  qed
  then show ?case using Cons.IH sub by simp
qed

lemma initial_scan_invariant:
  "scan_invariant env pid refs \<lparr>unique_files = {}, large_file_found = False, issued = [BranchListing pid]\<rparr>"
  by (auto simp: scan_invariant_def request_within_def size_lookup_found_large_def Cons_eq_append_conv)

text \<open>The scan as a state: the requests sent and the flag, whatever the listing answered.\<close>

lemma scan_all_branches_state:
  "\<exists>s. scan_invariant env pid (checked_branch_names env pid) s \<and>
       snd (scan_all_branches env pid) = issued s \<and>
       bs_has_large_file (fst (scan_all_branches env pid)) = large_file_found s"
proof -
  let ?init = "\<lparr>unique_files = {}, large_file_found = False, issued = [BranchListing pid]\<rparr>"
  let ?refs = "checked_branch_names env pid"
  have none: "scan_invariant env pid ?refs ?init \<and> [BranchListing pid] = issued ?init \<and>
              False = large_file_found ?init"
    by (simp add: initial_scan_invariant)
  show ?thesis
  proof (cases "\<exists>h branches. branches_get100 env pid = Response 200 h (Some branches)")
    case False
    then have "scan_all_branches env pid = (\<lparr>total_files = 0, bs_has_large_file = False\<rparr>, [BranchListing pid])"
      by (auto simp: scan_all_branches_def Let_def split: http.splits option.splits)
    with none show ?thesis by (intro exI[of _ ?init]) simp
  next
    case True
    then obtain h branches where r: "branches_get100 env pid = Response 200 h (Some branches)" by blast
    define s where "s = foldl (scan_branch env pid) ?init (take 10 branches)"
    have lb: "listed_branches env pid = branches" using r by (simp add: listed_branches_def get_or_def)
    have "scan_invariant env pid ?refs s"
      unfolding s_def
      by (intro scan_branches_invariant initial_scan_invariant) (simp add: checked_branch_names_def lb)
    moreover have "scan_all_branches env pid
        = (\<lparr>total_files = int (card (unique_files s)), bs_has_large_file = large_file_found s\<rparr>, issued s)"
      using r by (simp add: scan_all_branches_def Let_def s_def)
    ultimately show ?thesis by (intro exI[of _ s]) simp
  qed
qed

lemma checked_branch_names_card: "card (checked_branch_names env pid) \<le> 10"
proof -
  have "card (checked_branch_names env pid)
          \<le> length (List.map_filter b_name (take 10 (listed_branches env pid)))"
    unfolding checked_branch_names_def by (rule card_length)
  also have "\<dots> \<le> length (take 10 (listed_branches env pid))"
    by (rule length_map_filter_le)
  also have "\<dots> \<le> 10" by simp
  finally show ?thesis .
qed


lemma is_size_lookup_simps:
  "is_size_lookup (TreePage i b p) = False"
  "is_size_lookup (FileSize i f b) = True"
  "is_size_lookup (BranchListing i) = False"
  by (simp_all add: is_size_lookup_def)

lemma through_first_append:
  "through_first P (xs @ ys) =
     (if list_ex P xs then through_first P xs else through_first P xs @ through_first P ys)"
  by (induction xs) auto

lemma page_candidates_Cons:
  "page_candidates ref (item # items) = page_candidates ref [item] @ page_candidates ref items"
  by (simp add: page_candidates_def)

lemma page_candidates_single:
  "page_candidates ref [item] = (if is_candidate item then [(get_or (item_path item) [], ref)] else [])"
  by (simp add: page_candidates_def)

lemma scan_item_follows:
  assumes "filter is_size_lookup (issued s)
             = map (size_lookup_of pid) (through_first (candidate_exceeds env pid) cs)"
    and "large_file_found s = list_ex (candidate_exceeds env pid) cs"
  shows "filter is_size_lookup (issued (scan_item env pid ref s item))
             = map (size_lookup_of pid)
                 (through_first (candidate_exceeds env pid) (cs @ page_candidates ref [item])) \<and>
         large_file_found (scan_item env pid ref s item)
             = list_ex (candidate_exceeds env pid) (cs @ page_candidates ref [item])"
proof (cases "is_candidate item")
  case False
  then have "issued (scan_item env pid ref s item) = issued s \<and>
             large_file_found (scan_item env pid ref s item) = large_file_found s"
    by (auto simp: scan_item_def is_candidate_def Let_def)
  with False assms show ?thesis by (simp add: page_candidates_single)
next
  case True
  define file_path where "file_path = get_or (item_path item) []"
  have c: "item_type item = Some ''blob''" "file_path \<noteq> []" "has_large_file_extension file_path"
    using True by (simp_all add: is_candidate_def file_path_def)
  have pc: "page_candidates ref [item] = [(file_path, ref)]"
    using True by (simp add: page_candidates_single file_path_def)
  show ?thesis
  proof (cases "large_file_found s")
    case found: True
    then have "issued (scan_item env pid ref s item) = issued s \<and>
               large_file_found (scan_item env pid ref s item) = True"
      using c by (simp add: scan_item_def Let_def file_path_def[symmetric])
    with found assms show ?thesis by (simp add: pc through_first_append)
  next
    case nf: False
    then have "issued (scan_item env pid ref s item) = issued s @ [FileSize pid file_path ref] \<and>
               large_file_found (scan_item env pid ref s item) = file_size_exceeds env pid file_path ref"
      using c by (simp add: scan_item_def Let_def file_path_def[symmetric])
    with nf assms show ?thesis
      by (simp add: pc through_first_append is_size_lookup_simps size_lookup_of_def
                    candidate_exceeds_def)
  qed
qed

lemma scan_items_follows:
  assumes "filter is_size_lookup (issued s)
             = map (size_lookup_of pid) (through_first (candidate_exceeds env pid) cs)"
    and "large_file_found s = list_ex (candidate_exceeds env pid) cs"
  shows "filter is_size_lookup (issued (foldl (scan_item env pid ref) s items))
             = map (size_lookup_of pid)
                 (through_first (candidate_exceeds env pid) (cs @ page_candidates ref items)) \<and>
         large_file_found (foldl (scan_item env pid ref) s items)
             = list_ex (candidate_exceeds env pid) (cs @ page_candidates ref items)"
  using assms
proof (induction items arbitrary: s cs)
  case Nil
  then show ?case by (simp add: page_candidates_def)
next
  case (Cons item items)
  note st = scan_item_follows[OF Cons.prems, of ref item]
  have "filter is_size_lookup (issued (foldl (scan_item env pid ref) (scan_item env pid ref s item) items))
             = map (size_lookup_of pid)
                 (through_first (candidate_exceeds env pid)
                    ((cs @ page_candidates ref [item]) @ page_candidates ref items)) \<and>
         large_file_found (foldl (scan_item env pid ref) (scan_item env pid ref s item) items)
             = list_ex (candidate_exceeds env pid)
                    ((cs @ page_candidates ref [item]) @ page_candidates ref items)"
    using st by (intro Cons.IH) simp_all
  then show ?case by (simp add: page_candidates_Cons[of ref item items])
qed

lemma scan_branch_pages_follows:
  "filter is_size_lookup (issued s)
     = map (size_lookup_of pid) (through_first (candidate_exceeds env pid) cs) \<Longrightarrow>
   large_file_found s = list_ex (candidate_exceeds env pid) cs \<Longrightarrow>
   filter is_size_lookup (issued (scan_branch_pages env pid ref page s))
     = map (size_lookup_of pid)
         (through_first (candidate_exceeds env pid) (cs @ branch_candidates env pid ref page)) \<and>
   large_file_found (scan_branch_pages env pid ref page s)
     = list_ex (candidate_exceeds env pid) (cs @ branch_candidates env pid ref page)"
proof (induction env pid ref page s arbitrary: cs rule: scan_branch_pages.induct)
  case (1 env project_id branch_name page s)
  show ?case
  proof (cases "page \<le> 5")
    case False
    then have "scan_branch_pages env project_id branch_name page s = s"
      and "branch_candidates env project_id branch_name page = []"
      by (subst scan_branch_pages.simps, simp, subst branch_candidates.simps, simp)
    then show ?thesis using "1.prems" by simp
  next
    case True
    define s1 where "s1 = s\<lparr>issued := issued s @ [TreePage project_id branch_name page]\<rparr>"
    have f1: "filter is_size_lookup (issued s1)
               = map (size_lookup_of project_id) (through_first (candidate_exceeds env project_id) cs)"
      and g1: "large_file_found s1 = list_ex (candidate_exceeds env project_id) cs"
      using "1.prems" by (simp_all add: s1_def is_size_lookup_simps)
    show ?thesis
    proof (cases "tree_get env project_id branch_name page")
      case (Raised e)
      then have "scan_branch_pages env project_id branch_name page s = s1"
        and "branch_candidates env project_id branch_name page = []"
        using True
        by (subst scan_branch_pages.simps, simp add: s1_def,
            subst branch_candidates.simps, simp)
      then show ?thesis using f1 g1 by simp
    next
      case (Response st h body)
      show ?thesis
      proof (cases "st = 200 \<and> body \<noteq> None \<and> body \<noteq> Some []")
        case False
        then have "scan_branch_pages env project_id branch_name page s = s1"
          using True Response
          by (subst scan_branch_pages.simps) (auto simp: s1_def Let_def split: option.splits)
        moreover have "branch_candidates env project_id branch_name page = []"
          using False True Response
          by (subst branch_candidates.simps) (auto split: option.splits)
        ultimately show ?thesis using f1 g1 by simp
      next
        case ok: True
        then obtain items where items: "body = Some items" "items \<noteq> []" by auto
        define s2 where "s2 = foldl (scan_item env project_id branch_name) s1 items"
        note i2 = scan_items_follows[OF f1 g1, of branch_name items, folded s2_def]
        show ?thesis
        proof (cases "has_next_page h")
          case False
          then have "scan_branch_pages env project_id branch_name page s = s2"
            using True Response ok items
            by (subst scan_branch_pages.simps) (simp add: s1_def s2_def Let_def)
          moreover have "branch_candidates env project_id branch_name page
                           = page_candidates branch_name items"
            using True Response ok items False
            by (subst branch_candidates.simps) simp
          ultimately show ?thesis using i2 by simp
        next
          case nxt: True
          have eq: "scan_branch_pages env project_id branch_name page s
                = scan_branch_pages env project_id branch_name (page + 1) s2"
            using True Response ok items nxt
            by (subst scan_branch_pages.simps) (simp add: s1_def s2_def Let_def)
          have bc: "branch_candidates env project_id branch_name page
                  = page_candidates branch_name items
                    @ branch_candidates env project_id branch_name (page + 1)"
            using True Response ok items nxt
            by (subst branch_candidates.simps) simp
          have "filter is_size_lookup
                  (issued (scan_branch_pages env project_id branch_name (page + 1) s2))
                = map (size_lookup_of project_id)
                    (through_first (candidate_exceeds env project_id)
                       ((cs @ page_candidates branch_name items)
                        @ branch_candidates env project_id branch_name (page + 1))) \<and>
                large_file_found (scan_branch_pages env project_id branch_name (page + 1) s2)
                = list_ex (candidate_exceeds env project_id)
                       ((cs @ page_candidates branch_name items)
                        @ branch_candidates env project_id branch_name (page + 1))"
            by (rule "1.IH"[OF True s1_def Response _ items(1) items(2) s2_def])
               (use ok nxt i2 in simp_all)
          then show ?thesis by (simp add: eq bc)
        qed
      qed
    qed
  qed
qed

lemma scan_branch_follows:
  assumes "filter is_size_lookup (issued s)
             = map (size_lookup_of pid) (through_first (candidate_exceeds env pid) cs)"
    and "large_file_found s = list_ex (candidate_exceeds env pid) cs"
  shows "filter is_size_lookup (issued (scan_branch env pid s b))
           = map (size_lookup_of pid)
               (through_first (candidate_exceeds env pid)
                  (cs @ (let name = get_or (b_name b) []
                         in if name = [] then [] else branch_candidates env pid name 1))) \<and>
         large_file_found (scan_branch env pid s b)
           = list_ex (candidate_exceeds env pid)
                  (cs @ (let name = get_or (b_name b) []
                         in if name = [] then [] else branch_candidates env pid name 1))"
proof (cases "get_or (b_name b) [] = []")
  case True
  then show ?thesis using assms by (simp add: scan_branch_def Let_def)
next
  case False
  then show ?thesis
    using scan_branch_pages_follows[OF assms, of "get_or (b_name b) []" 1]
    by (simp add: scan_branch_def Let_def)
qed

lemma scan_branches_follows:
  assumes "filter is_size_lookup (issued s)
             = map (size_lookup_of pid) (through_first (candidate_exceeds env pid) cs)"
    and "large_file_found s = list_ex (candidate_exceeds env pid) cs"
  shows "filter is_size_lookup (issued (foldl (scan_branch env pid) s bs))
           = map (size_lookup_of pid)
               (through_first (candidate_exceeds env pid)
                  (cs @ concat (map (\<lambda>b. let name = get_or (b_name b) []
                                          in if name = [] then []
                                             else branch_candidates env pid name 1) bs))) \<and>
         large_file_found (foldl (scan_branch env pid) s bs)
           = list_ex (candidate_exceeds env pid)
                  (cs @ concat (map (\<lambda>b. let name = get_or (b_name b) []
                                          in if name = [] then []
                                             else branch_candidates env pid name 1) bs))"
  using assms
proof (induction bs arbitrary: s cs)
  case Nil
  then show ?case by simp
next
  case (Cons b bs)
  note st = scan_branch_follows[OF Cons.prems, of b]
  show ?case
    using Cons.IH[OF conjunct1[OF st] conjunct2[OF st]] by simp
qed

text \<open>
  The size lookups of the whole scan are those of the candidates, in order, up to and
  including the first that is over the limit; the flag says whether there is one.
\<close>

lemma scan_all_branches_follows:
  "filter is_size_lookup (snd (scan_all_branches env pid))
     = map (size_lookup_of pid)
         (through_first (candidate_exceeds env pid) (all_candidates env pid)) \<and>
   bs_has_large_file (fst (scan_all_branches env pid))
     = list_ex (candidate_exceeds env pid) (all_candidates env pid)"
proof (cases "\<exists>h branches. branches_get100 env pid = Response 200 h (Some branches)")
  case False
  then have "scan_all_branches env pid
               = (\<lparr>total_files = 0, bs_has_large_file = False\<rparr>, [BranchListing pid])"
    by (auto simp: scan_all_branches_def Let_def split: http.splits option.splits)
  moreover have "listed_branches env pid = []"
    using False by (auto simp: listed_branches_def get_or_def split: http.splits option.splits)
  ultimately show ?thesis by (simp add: all_candidates_def is_size_lookup_simps)
next
  case True
  then obtain h branches where r: "branches_get100 env pid = Response 200 h (Some branches)"
    by blast
  let ?init = "\<lparr>unique_files = {}, large_file_found = False, issued = [BranchListing pid]\<rparr>"
  define s where "s = foldl (scan_branch env pid) ?init (take 10 branches)"
  have lb: "listed_branches env pid = branches"
    using r by (simp add: listed_branches_def get_or_def)
  have eq: "scan_all_branches env pid
        = (\<lparr>total_files = int (card (unique_files s)), bs_has_large_file = large_file_found s\<rparr>,
           issued s)"
    using r by (simp add: scan_all_branches_def Let_def s_def)
  have "filter is_size_lookup (issued ?init)
          = map (size_lookup_of pid) (through_first (candidate_exceeds env pid) [])"
    and "large_file_found ?init = list_ex (candidate_exceeds env pid) []"
    by (simp_all add: is_size_lookup_simps)
  from scan_branches_follows[OF this, of "take 10 branches"]
  show ?thesis by (simp add: eq all_candidates_def lb s_def)
qed

text \<open>Requests are only ever added, and a branch that is scanned has its first page asked for.\<close>

lemma scan_item_keeps_requests:
  "set (issued s) \<subseteq> set (issued (scan_item env pid ref s item))"
  by (auto simp: scan_item_def Let_def)

lemma scan_items_keep_requests:
  "set (issued s) \<subseteq> set (issued (foldl (scan_item env pid ref) s items))"
proof (induction items arbitrary: s)
  case Nil
  then show ?case by simp
next
  case (Cons item items)
  show ?case using scan_item_keeps_requests[of s env pid ref item] Cons.IH by fastforce
qed

lemma scan_branch_pages_keeps_requests:
  "set (issued s) \<subseteq> set (issued (scan_branch_pages env pid ref page s))"
proof (induction env pid ref page s rule: scan_branch_pages.induct)
  case (1 env project_id branch_name page s)
  show ?case
  proof (cases "page \<le> 5")
    case False
    then show ?thesis by (subst scan_branch_pages.simps) simp
  next
    case True
    define s1 where "s1 = s\<lparr>issued := issued s @ [TreePage project_id branch_name page]\<rparr>"
    have s1: "set (issued s) \<subseteq> set (issued s1)" by (auto simp: s1_def)
    show ?thesis
    proof (cases "\<exists>h items. tree_get env project_id branch_name page = Response 200 h (Some items)
                    \<and> items \<noteq> [] \<and> has_next_page h")
      case False
      then have "scan_branch_pages env project_id branch_name page s = s1 \<or>
                 (\<exists>items. scan_branch_pages env project_id branch_name page s
                    = foldl (scan_item env project_id branch_name) s1 items)"
        using True
        by (subst (1 2) scan_branch_pages.simps)
           (auto simp: s1_def Let_def split: http.splits option.splits)
      then show ?thesis using s1 scan_items_keep_requests by fastforce
    next
      case nxt: True
      then obtain h items where r: "tree_get env project_id branch_name page = Response 200 h (Some items)"
        "items \<noteq> []" "has_next_page h" by blast
      define s2 where "s2 = foldl (scan_item env project_id branch_name) s1 items"
      have eq: "scan_branch_pages env project_id branch_name page s
                = scan_branch_pages env project_id branch_name (page + 1) s2"
        using True r by (subst scan_branch_pages.simps) (simp add: s1_def s2_def Let_def)
      have "set (issued s2) \<subseteq> set (issued (scan_branch_pages env project_id branch_name (page + 1) s2))"
        by (rule "1.IH"[OF True s1_def r(1) _ refl r(2) s2_def]) (use r in simp_all)
      moreover have "set (issued s1) \<subseteq> set (issued s2)"
        unfolding s2_def by (rule scan_items_keep_requests)
      ultimately show ?thesis using s1 eq by auto
    qed
  qed
qed

lemma scan_branch_pages_first_request:
  "TreePage pid ref 1 \<in> set (issued (scan_branch_pages env pid ref 1 s))"
proof -
  define s1 where "s1 = s\<lparr>issued := issued s @ [TreePage pid ref 1]\<rparr>"
  have m: "TreePage pid ref 1 \<in> set (issued s1)" by (simp add: s1_def)
  have "scan_branch_pages env pid ref 1 s = s1 \<or>
        (\<exists>items. scan_branch_pages env pid ref 1 s = foldl (scan_item env pid ref) s1 items) \<or>
        (\<exists>items. scan_branch_pages env pid ref 1 s
           = scan_branch_pages env pid ref (1 + 1) (foldl (scan_item env pid ref) s1 items))"
    by (subst (1 2 3) scan_branch_pages.simps)
       (auto simp: s1_def Let_def split: http.splits option.splits)
  then show ?thesis
    using m scan_items_keep_requests[of s1 env pid ref]
      scan_branch_pages_keeps_requests[of _ env pid ref "1 + 1"]
    by (metis subsetD)
qed

lemma scan_branch_keeps_requests:
  "set (issued s) \<subseteq> set (issued (scan_branch env pid s b))"
  using scan_branch_pages_keeps_requests by (simp add: scan_branch_def Let_def)

lemma scan_branches_keep_requests:
  "set (issued s) \<subseteq> set (issued (foldl (scan_branch env pid) s bs))"
proof (induction bs arbitrary: s)
  case Nil
  then show ?case by simp
next
  case (Cons b bs)
  show ?case using scan_branch_keeps_requests[of s env pid b] Cons.IH by fastforce
qed

lemma scan_branches_first_requests:
  "b \<in> set bs \<Longrightarrow> get_or (b_name b) [] \<noteq> [] \<Longrightarrow>
   TreePage pid (get_or (b_name b) []) 1 \<in> set (issued (foldl (scan_branch env pid) s bs))"
proof (induction bs arbitrary: s)
  case Nil
  then show ?case by simp
next
  case (Cons a bs)
  show ?case
  proof (cases "b = a")
    case True
    have "TreePage pid (get_or (b_name b) []) 1 \<in> set (issued (scan_branch env pid s a))"
      using True Cons.prems(2) scan_branch_pages_first_request
      by (simp add: scan_branch_def Let_def)
    then show ?thesis
      using scan_branches_keep_requests[of "scan_branch env pid s a" env pid bs] by auto
  next
    case False
    then have "b \<in> set bs" using Cons.prems(1) by simp
    then show ?thesis using Cons.IH Cons.prems(2) by simp
  qed
qed

lemma scan_all_branches_first_requests:
  assumes "b \<in> set (take 10 (listed_branches env pid))" "get_or (b_name b) [] \<noteq> []"
  shows "TreePage pid (get_or (b_name b) []) 1 \<in> set (snd (scan_all_branches env pid))"
proof (cases "\<exists>h branches. branches_get100 env pid = Response 200 h (Some branches)")
  case False
  then have "listed_branches env pid = []"
    by (auto simp: listed_branches_def get_or_def split: http.splits option.splits)
  with assms show ?thesis by simp
next
  case True
  then obtain h branches where r: "branches_get100 env pid = Response 200 h (Some branches)"
    by blast
  have lb: "listed_branches env pid = branches"
    using r by (simp add: listed_branches_def get_or_def)
  have "snd (scan_all_branches env pid)
          = issued (foldl (scan_branch env pid)
              \<lparr>unique_files = {}, large_file_found = False, issued = [BranchListing pid]\<rparr>
              (take 10 branches))"
    using r by (simp add: scan_all_branches_def Let_def)
  then show ?thesis using scan_branches_first_requests[OF assms[unfolded lb]] by simp
qed

lemma through_first_all: "\<not> list_ex P xs \<Longrightarrow> through_first P xs = xs"
  by (induction xs) auto

lemma file_size_exceeds_iff:
  "file_head env pid file_path ref = Response st h b \<Longrightarrow>
   py_int (get_or (h ''X-Gitlab-Size'') ''0'') = Some file_size \<Longrightarrow>
   file_size_exceeds env pid file_path ref \<longleftrightarrow> st = 200 \<and> file_size > 100 * 1024 * 1024"
  by (simp add: file_size_exceeds_def)

text \<open>
  Every tree page that was asked for and answered with items has its candidates among
  those of the scan.
\<close>

lemma pages_covered_mono:
  "pages_covered env cs s \<Longrightarrow> set cs \<subseteq> set cs' \<Longrightarrow> pages_covered env cs' s"
  unfolding pages_covered_def by blast

lemma scan_item_tree_requests:
  "TreePage i r p \<in> set (issued (scan_item env pid ref s item))
     \<longleftrightarrow> TreePage i r p \<in> set (issued s)"
  by (auto simp: scan_item_def Let_def)

lemma scan_items_tree_requests:
  "TreePage i r p \<in> set (issued (foldl (scan_item env pid ref) s items))
     \<longleftrightarrow> TreePage i r p \<in> set (issued s)"
  by (induction items arbitrary: s) (simp_all add: scan_item_tree_requests)

lemma scan_items_covered:
  "pages_covered env cs s \<Longrightarrow> pages_covered env cs (foldl (scan_item env pid ref) s items)"
  unfolding pages_covered_def by (simp add: scan_items_tree_requests)

lemma tree_request_covered:
  assumes "pages_covered env cs s"
    and "\<And>h items. tree_get env pid ref page = Response 200 h (Some items)
           \<Longrightarrow> set (page_candidates ref items) \<subseteq> set cs"
  shows "pages_covered env cs (s\<lparr>issued := issued s @ [TreePage pid ref page]\<rparr>)"
  unfolding pages_covered_def
proof (intro allI impI, elim conjE)
  fix i r p h items
  assume m: "TreePage i r p \<in> set (issued (s\<lparr>issued := issued s @ [TreePage pid ref page]\<rparr>))"
    and t: "tree_get env i r p = Response 200 h (Some items)"
  show "set (page_candidates r items) \<subseteq> set cs"
  proof (cases "TreePage i r p \<in> set (issued s)")
    case True
    with assms(1) t show ?thesis unfolding pages_covered_def by blast
  next
    case False
    with m have "i = pid" "r = ref" "p = page" by simp_all
    with t assms(2) show ?thesis by blast
  qed
qed

lemma scan_branch_pages_covered:
  "pages_covered env cs s \<Longrightarrow>
   pages_covered env (cs @ branch_candidates env pid ref page)
     (scan_branch_pages env pid ref page s)"
proof (induction env pid ref page s arbitrary: cs rule: scan_branch_pages.induct)
  case (1 env project_id branch_name page s)
  show ?case
  proof (cases "page \<le> 5")
    case False
    then have "scan_branch_pages env project_id branch_name page s = s"
      by (subst scan_branch_pages.simps) simp
    then show ?thesis using "1.prems" pages_covered_mono by fastforce
  next
    case True
    define s1 where "s1 = s\<lparr>issued := issued s @ [TreePage project_id branch_name page]\<rparr>"
    show ?thesis
    proof (cases "\<exists>h items. tree_get env project_id branch_name page = Response 200 h (Some items)
                    \<and> items \<noteq> []")
      case False
      then have "scan_branch_pages env project_id branch_name page s = s1"
        using True
        by (subst scan_branch_pages.simps)
           (auto simp: s1_def Let_def split: http.splits option.splits)
      moreover have "pages_covered env cs s1"
        unfolding s1_def using "1.prems" False
        by (intro tree_request_covered) (auto simp: page_candidates_def)
      ultimately show ?thesis using pages_covered_mono by fastforce
    next
      case ok: True
      then obtain h items where r: "tree_get env project_id branch_name page = Response 200 h (Some items)"
        "items \<noteq> []" by blast
      define s2 where "s2 = foldl (scan_item env project_id branch_name) s1 items"
      let ?pc = "page_candidates branch_name items"
      have "pages_covered env (cs @ ?pc) s1"
        unfolding s1_def using r
        by (intro tree_request_covered pages_covered_mono[OF "1.prems"]) auto
      then have c2: "pages_covered env (cs @ ?pc) s2"
        unfolding s2_def by (rule scan_items_covered)
      show ?thesis
      proof (cases "has_next_page h")
        case False
        then have "scan_branch_pages env project_id branch_name page s = s2"
          using True r by (subst scan_branch_pages.simps) (simp add: s1_def s2_def Let_def)
        moreover have "branch_candidates env project_id branch_name page = ?pc"
          using True r False by (subst branch_candidates.simps) simp
        ultimately show ?thesis using c2 by simp
      next
        case nxt: True
        have eq: "scan_branch_pages env project_id branch_name page s
                = scan_branch_pages env project_id branch_name (page + 1) s2"
          using True r nxt by (subst scan_branch_pages.simps) (simp add: s1_def s2_def Let_def)
        have bc: "branch_candidates env project_id branch_name page
                = ?pc @ branch_candidates env project_id branch_name (page + 1)"
          using True r nxt by (subst branch_candidates.simps) simp
        have "pages_covered env ((cs @ ?pc) @ branch_candidates env project_id branch_name (page + 1))
                (scan_branch_pages env project_id branch_name (page + 1) s2)"
          by (rule "1.IH"[OF True s1_def r(1) _ refl r(2) s2_def]) (use nxt c2 in simp_all)
        then show ?thesis by (simp add: eq bc)
      qed
    qed
  qed
qed

lemma scan_branches_covered:
  "pages_covered env cs s \<Longrightarrow>
   pages_covered env
     (cs @ concat (map (\<lambda>b. let name = get_or (b_name b) []
                             in if name = [] then [] else branch_candidates env pid name 1) bs))
     (foldl (scan_branch env pid) s bs)"
proof (induction bs arbitrary: s cs)
  case Nil
  then show ?case by simp
next
  case (Cons b bs)
  have "pages_covered env
          (cs @ (let name = get_or (b_name b) []
                 in if name = [] then [] else branch_candidates env pid name 1))
          (scan_branch env pid s b)"
    using Cons.prems scan_branch_pages_covered[OF Cons.prems, of pid "get_or (b_name b) []" 1]
    by (simp add: scan_branch_def Let_def)
  from Cons.IH[OF this] show ?case by simp
qed

lemma scan_all_branches_covered:
  assumes "TreePage pid ref p \<in> set (snd (scan_all_branches env pid))"
    and "tree_get env pid ref p = Response 200 h (Some items)"
  shows "set (page_candidates ref items) \<subseteq> set (all_candidates env pid)"
proof (cases "\<exists>h branches. branches_get100 env pid = Response 200 h (Some branches)")
  case False
  then have "scan_all_branches env pid
               = (\<lparr>total_files = 0, bs_has_large_file = False\<rparr>, [BranchListing pid])"
    by (auto simp: scan_all_branches_def Let_def split: http.splits option.splits)
  with assms(1) show ?thesis by simp
next
  case True
  then obtain h' branches where r: "branches_get100 env pid = Response 200 h' (Some branches)"
    by blast
  let ?init = "\<lparr>unique_files = {}, large_file_found = False, issued = [BranchListing pid]\<rparr>"
  have lb: "listed_branches env pid = branches"
    using r by (simp add: listed_branches_def get_or_def)
  have eq: "snd (scan_all_branches env pid)
              = issued (foldl (scan_branch env pid) ?init (take 10 branches))"
    using r by (simp add: scan_all_branches_def Let_def)
  have "pages_covered env [] ?init" by (simp add: pages_covered_def)
  from scan_branches_covered[OF this, of pid "take 10 branches"]
  have "pages_covered env (all_candidates env pid)
          (foldl (scan_branch env pid) ?init (take 10 branches))"
    by (simp add: all_candidates_def lb)
  then show ?thesis using assms unfolding pages_covered_def eq by blast
qed

lemma page_candidates_member:
  "(file_path, ref') \<in> set (page_candidates ref items) \<longleftrightarrow>
     ref' = ref \<and> file_path \<noteq> [] \<and> has_large_file_extension file_path \<and>
     (\<exists>item\<in>set items. item_type item = Some ''blob'' \<and> item_path item = Some file_path)"
  by (cases "file_path = []")
     (auto simp: page_candidates_def is_candidate_def get_or_def image_iff
           split: option.splits)

text \<open>
  C9: every request of the multi-branch scan is the branch listing, a tree page (1 to 5) of
  one of the first ten branches listed, or a size lookup, on such a branch, of a path whose
  lower-cased name ends in one of the listed extensions.  The large-file flag is set
  exactly when one of the size lookups sent answered 200 with a size over
  \<open>100 * 1024 * 1024\<close> bytes (strictly), and no size lookup is sent after such a lookup.

  Conversely the scan leaves nothing out.  The first tree page of each of the first ten
  branches with a name is asked for.  Every blob with a non-empty path and a listed
  extension on a tree page that was asked for and answered 200 is a candidate
  (\<open>all_candidates\<close> lists them in the order of the scan).  The size lookups sent are
  exactly those of the candidates, in that order, up to and including the first one over
  the limit; so while no large file was found every candidate is size-checked, and the
  flag is set exactly when some candidate is over the limit.
\<close>

theorem large_file_scan_is_bounded:
  "(\<forall>r\<in>set (snd (scan_all_branches env pid)). request_within pid (checked_branch_names env pid) r) \<and>
   card (checked_branch_names env pid) \<le> 10 \<and>
   (bs_has_large_file (get_all_branches_file_stats env pid) \<longleftrightarrow>
      (\<exists>r\<in>set (snd (scan_all_branches env pid)). size_lookup_found_large env r)) \<and>
   (\<forall>pre r post. snd (scan_all_branches env pid) = pre @ r # post \<and> size_lookup_found_large env r
       \<longrightarrow> (\<forall>r'\<in>set post. \<not> is_size_lookup r')) \<and>
   (file_head env pid file_path ref = Response st h b \<and>
    py_int (get_or (h ''X-Gitlab-Size'') ''0'') = Some file_size \<longrightarrow>
      (size_lookup_found_large env (FileSize pid file_path ref)
         \<longleftrightarrow> st = 200 \<and> file_size > 100 * 1024 * 1024)) \<and>
   (\<forall>br\<in>set (take 10 (listed_branches env pid)). get_or (b_name br) [] \<noteq> [] \<longrightarrow>
      TreePage pid (get_or (b_name br) []) 1 \<in> set (snd (scan_all_branches env pid))) \<and>
   (\<forall>r p h' items fp.
      TreePage pid r p \<in> set (snd (scan_all_branches env pid)) \<and>
      tree_get env pid r p = Response 200 h' (Some items) \<and>
      (\<exists>item\<in>set items. item_type item = Some ''blob'' \<and> item_path item = Some fp) \<and>
      fp \<noteq> [] \<and> has_large_file_extension fp
        \<longrightarrow> (fp, r) \<in> set (all_candidates env pid)) \<and>
   filter is_size_lookup (snd (scan_all_branches env pid))
     = map (size_lookup_of pid)
         (through_first (candidate_exceeds env pid) (all_candidates env pid)) \<and>
   (bs_has_large_file (get_all_branches_file_stats env pid) \<longleftrightarrow>
      list_ex (candidate_exceeds env pid) (all_candidates env pid)) \<and>
   (\<not> bs_has_large_file (get_all_branches_file_stats env pid) \<longrightarrow>
      (\<forall>c\<in>set (all_candidates env pid).
         FileSize pid (fst c) (snd c) \<in> set (snd (scan_all_branches env pid)))) \<and>
   (file_head env pid file_path ref = Response st h b \<and>
    py_int (get_or (h ''X-Gitlab-Size'') ''0'') = Some file_size \<longrightarrow>
      (candidate_exceeds env pid (file_path, ref)
         \<longleftrightarrow> st = 200 \<and> file_size > 100 * 1024 * 1024))"
proof -
  obtain s where s: "scan_invariant env pid (checked_branch_names env pid) s"
    "snd (scan_all_branches env pid) = issued s"
    "bs_has_large_file (fst (scan_all_branches env pid)) = large_file_found s"
    using scan_all_branches_state by blast
  note f = scan_all_branches_follows[of env pid]
  have 1: "\<forall>r\<in>set (snd (scan_all_branches env pid)). request_within pid (checked_branch_names env pid) r"
    using s(1) unfolding scan_invariant_def s(2) by blast
  have 3: "bs_has_large_file (get_all_branches_file_stats env pid) \<longleftrightarrow>
      (\<exists>r\<in>set (snd (scan_all_branches env pid)). size_lookup_found_large env r)"
    using s(1) unfolding scan_invariant_def s(2) get_all_branches_file_stats_def s(3) by blast
  have 4: "\<forall>pre r post. snd (scan_all_branches env pid) = pre @ r # post \<and> size_lookup_found_large env r
       \<longrightarrow> (\<forall>r'\<in>set post. \<not> is_size_lookup r')"
    using s(1) unfolding scan_invariant_def s(2) by blast
  have 5: "file_head env pid file_path ref = Response st h b \<and>
    py_int (get_or (h ''X-Gitlab-Size'') ''0'') = Some file_size \<longrightarrow>
      (size_lookup_found_large env (FileSize pid file_path ref)
         \<longleftrightarrow> st = 200 \<and> file_size > 100 * 1024 * 1024)"
    by (simp add: size_lookup_found_large_def file_size_exceeds_def)
  have 6: "\<forall>br\<in>set (take 10 (listed_branches env pid)). get_or (b_name br) [] \<noteq> [] \<longrightarrow>
      TreePage pid (get_or (b_name br) []) 1 \<in> set (snd (scan_all_branches env pid))"
    using scan_all_branches_first_requests by blast
  have 7: "\<forall>r p h' items fp.
      TreePage pid r p \<in> set (snd (scan_all_branches env pid)) \<and>
      tree_get env pid r p = Response 200 h' (Some items) \<and>
      (\<exists>item\<in>set items. item_type item = Some ''blob'' \<and> item_path item = Some fp) \<and>
      fp \<noteq> [] \<and> has_large_file_extension fp
        \<longrightarrow> (fp, r) \<in> set (all_candidates env pid)"
  proof (intro allI impI, elim conjE)
    fix r p h' items fp
    assume a: "TreePage pid r p \<in> set (snd (scan_all_branches env pid))"
      "tree_get env pid r p = Response 200 h' (Some items)"
      and i: "\<exists>item\<in>set items. item_type item = Some ''blob'' \<and> item_path item = Some fp"
      "fp \<noteq> []" "has_large_file_extension fp"
    from i have "(fp, r) \<in> set (page_candidates r items)"
      by (simp add: page_candidates_member)
    with scan_all_branches_covered[OF a] show "(fp, r) \<in> set (all_candidates env pid)" by blast
  qed
  have 8: "filter is_size_lookup (snd (scan_all_branches env pid))
     = map (size_lookup_of pid)
         (through_first (candidate_exceeds env pid) (all_candidates env pid))"
    using f by simp
  have 9: "bs_has_large_file (get_all_branches_file_stats env pid) \<longleftrightarrow>
      list_ex (candidate_exceeds env pid) (all_candidates env pid)"
    using f by (simp add: get_all_branches_file_stats_def)
  have 10: "\<not> bs_has_large_file (get_all_branches_file_stats env pid) \<longrightarrow>
      (\<forall>c\<in>set (all_candidates env pid).
         FileSize pid (fst c) (snd c) \<in> set (snd (scan_all_branches env pid)))"
  proof (intro impI ballI)
    fix c
    assume n: "\<not> bs_has_large_file (get_all_branches_file_stats env pid)"
      and c: "c \<in> set (all_candidates env pid)"
    from n 9 have "through_first (candidate_exceeds env pid) (all_candidates env pid)
                     = all_candidates env pid"
      by (simp add: through_first_all)
    with 8 c have "size_lookup_of pid c \<in> set (filter is_size_lookup (snd (scan_all_branches env pid)))"
      by simp
    then show "FileSize pid (fst c) (snd c) \<in> set (snd (scan_all_branches env pid))"
      by (simp add: size_lookup_of_def)
  qed
  have 11: "file_head env pid file_path ref = Response st h b \<and>
    py_int (get_or (h ''X-Gitlab-Size'') ''0'') = Some file_size \<longrightarrow>
      (candidate_exceeds env pid (file_path, ref)
         \<longleftrightarrow> st = 200 \<and> file_size > 100 * 1024 * 1024)"
    by (simp add: candidate_exceeds_def file_size_exceeds_def)
  show ?thesis
    by (intro conjI 1 checked_branch_names_card 3 4 5 6 7 8 9 10 11)
qed

theorem large_file_scan_witness:
  "snd (scan_all_branches archive_api 1)
     = [BranchListing 1, TreePage 1 ''main'' 1, FileSize 1 ''dist/App.ZIP'' ''main'', TreePage 1 ''dev'' 1] \<and>
   size_lookup_found_large archive_api (FileSize 1 ''dist/App.ZIP'' ''main'') \<and>
   bs_has_large_file (get_all_branches_file_stats archive_api 1) \<and>
   \<not> is_size_lookup (TreePage 1 ''dev'' 1) \<and>
   request_within 1 (checked_branch_names archive_api 1) (FileSize 1 ''dist/App.ZIP'' ''main'') \<and>
   file_head at_threshold_api 1 ''dist/App.ZIP'' ''main''
     = Response 200 [''X-Gitlab-Size'' \<mapsto> ''104857600''] None \<and>
   py_int (get_or ([''X-Gitlab-Size'' \<mapsto> ''104857600''] ''X-Gitlab-Size'') ''0'') = Some 104857600 \<and>
   \<not> size_lookup_found_large at_threshold_api (FileSize 1 ''dist/App.ZIP'' ''main'') \<and>
   length (snd (scan_all_branches many_branches_api 1)) = 11 \<and>
   all_candidates at_threshold_api 1 = [(''dist/App.ZIP'', ''main''), (''disk.iso'', ''main'')] \<and>
   (''disk.iso'', ''main'') \<in> set (all_candidates archive_api 1) \<and>
   through_first (candidate_exceeds archive_api 1) (all_candidates archive_api 1)
     = [(''dist/App.ZIP'', ''main'')] \<and>
   \<not> candidate_exceeds at_threshold_api 1 (''dist/App.ZIP'', ''main'') \<and>
   \<not> bs_has_large_file (get_all_branches_file_stats at_threshold_api 1) \<and>
   FileSize 1 ''disk.iso'' ''main'' \<in> set (snd (scan_all_branches at_threshold_api 1)) \<and>
   TreePage 1 ''dev'' 1 \<in> set (snd (scan_all_branches at_threshold_api 1))"
proof -
  note t = large_file_scan_is_bounded[of archive_api 1 "''dist/App.ZIP''" "''main''" 200
      "[''X-Gitlab-Size'' \<mapsto> ''104857601'']" None 104857601]
  note u = large_file_scan_is_bounded[of at_threshold_api 1 "''dist/App.ZIP''" "''main''" 200
      "[''X-Gitlab-Size'' \<mapsto> ''104857600'']" None 104857600]
  have tr: "snd (scan_all_branches archive_api 1)
     = [BranchListing 1, TreePage 1 ''main'' 1, FileSize 1 ''dist/App.ZIP'' ''main'', TreePage 1 ''dev'' 1]"
    by code_simp
  have fh: "file_head archive_api 1 ''dist/App.ZIP'' ''main''
     = Response 200 [''X-Gitlab-Size'' \<mapsto> ''104857601''] None"
    by (simp add: archive_api_def)
  have pi: "py_int (get_or ([''X-Gitlab-Size'' \<mapsto> ''104857601''] ''X-Gitlab-Size'') ''0'') = Some 104857601"
    by (simp add: get_or_def py_int_def strip_def is_space_def is_digit_def digits_value_def)
  have lg: "size_lookup_found_large archive_api (FileSize 1 ''dist/App.ZIP'' ''main'')"
    using t fh pi by simp
  have mem: "FileSize 1 ''dist/App.ZIP'' ''main'' \<in> set (snd (scan_all_branches archive_api 1))"
    by (simp add: tr)
  have flag: "bs_has_large_file (get_all_branches_file_stats archive_api 1)"
    using t lg mem by blast
  have within: "request_within 1 (checked_branch_names archive_api 1) (FileSize 1 ''dist/App.ZIP'' ''main'')"
    using t mem by blast
  have nl: "\<not> is_size_lookup (TreePage 1 ''dev'' 1)"
  proof -
    have "snd (scan_all_branches archive_api 1)
       = [BranchListing 1, TreePage 1 ''main'' 1] @ FileSize 1 ''dist/App.ZIP'' ''main'' # [TreePage 1 ''dev'' 1]"
      by (simp add: tr)
    with t lg have "\<forall>r'\<in>set [TreePage 1 ''dev'' 1]. \<not> is_size_lookup r'" by blast
    then show ?thesis by simp
  qed
  have fh2: "file_head at_threshold_api 1 ''dist/App.ZIP'' ''main''
     = Response 200 [''X-Gitlab-Size'' \<mapsto> ''104857600''] None"
    by (simp add: at_threshold_api_def archive_api_def)
  have pi2: "py_int (get_or ([''X-Gitlab-Size'' \<mapsto> ''104857600''] ''X-Gitlab-Size'') ''0'') = Some 104857600"
    by (simp add: get_or_def py_int_def strip_def is_space_def is_digit_def digits_value_def)
  have nlg: "\<not> size_lookup_found_large at_threshold_api (FileSize 1 ''dist/App.ZIP'' ''main'')"
    using u fh2 pi2 by simp
  have len: "length (snd (scan_all_branches many_branches_api 1)) = 11"
    by code_simp
  have ca: "all_candidates at_threshold_api 1 = [(''dist/App.ZIP'', ''main''), (''disk.iso'', ''main'')]"
    by code_simp
  have tg: "tree_get archive_api 1 ''main'' 1
      = Response 200 Map.empty
          (Some [\<lparr>item_type = Some ''blob'', item_path = Some ''README.md''\<rparr>,
                 \<lparr>item_type = Some ''blob'', item_path = Some ''dist/App.ZIP''\<rparr>,
                 \<lparr>item_type = Some ''blob'', item_path = Some ''disk.iso''\<rparr>])"
    by (simp add: archive_api_def)
  have ext: "has_large_file_extension ''disk.iso''" by code_simp
  have tm: "TreePage 1 ''main'' 1 \<in> set (snd (scan_all_branches archive_api 1))"
    by (simp add: tr)
  have cb: "(''disk.iso'', ''main'') \<in> set (all_candidates archive_api 1)"
  proof -
    from t have "\<forall>r p h' items fp.
      TreePage 1 r p \<in> set (snd (scan_all_branches archive_api 1)) \<and>
      tree_get archive_api 1 r p = Response 200 h' (Some items) \<and>
      (\<exists>item\<in>set items. item_type item = Some ''blob'' \<and> item_path item = Some fp) \<and>
      fp \<noteq> [] \<and> has_large_file_extension fp
        \<longrightarrow> (fp, r) \<in> set (all_candidates archive_api 1)"
      by (elim conjE)
    from this[rule_format, of "''main''" 1 Map.empty _ "''disk.iso''"] tm tg ext
    show ?thesis by simp
  qed
  have nce: "\<not> candidate_exceeds at_threshold_api 1 (''dist/App.ZIP'', ''main'')"
    using u fh2 pi2 by simp
  have tf: "through_first (candidate_exceeds archive_api 1) (all_candidates archive_api 1)
     = [(''dist/App.ZIP'', ''main'')]"
  proof -
    from t have "filter is_size_lookup (snd (scan_all_branches archive_api 1))
       = map (size_lookup_of 1)
           (through_first (candidate_exceeds archive_api 1) (all_candidates archive_api 1))"
      by (elim conjE)
    then have "map (size_lookup_of 1)
           (through_first (candidate_exceeds archive_api 1) (all_candidates archive_api 1))
         = [FileSize 1 ''dist/App.ZIP'' ''main'']"
      by (simp add: tr is_size_lookup_simps)
    then show ?thesis
      by (auto simp: size_lookup_of_def map_eq_Cons_conv)
  qed
  have nflag: "\<not> bs_has_large_file (get_all_branches_file_stats at_threshold_api 1)"
    by code_simp
  have dk: "FileSize 1 ''disk.iso'' ''main'' \<in> set (snd (scan_all_branches at_threshold_api 1))"
  proof -
    from u nflag have "\<forall>c\<in>set (all_candidates at_threshold_api 1).
         FileSize 1 (fst c) (snd c) \<in> set (snd (scan_all_branches at_threshold_api 1))"
      by (elim conjE) simp
    then show ?thesis by (simp add: ca)
  qed
  have lbr: "take 10 (listed_branches at_threshold_api 1)
               = [\<lparr>b_name = Some ''main''\<rparr>, \<lparr>b_name = Some ''dev''\<rparr>]"
    by (simp add: listed_branches_def at_threshold_api_def archive_api_def get_or_def)
  have dv: "TreePage 1 ''dev'' 1 \<in> set (snd (scan_all_branches at_threshold_api 1))"
  proof -
    from u have "\<forall>br\<in>set (take 10 (listed_branches at_threshold_api 1)).
        get_or (b_name br) [] \<noteq> [] \<longrightarrow>
        TreePage 1 (get_or (b_name br) []) 1 \<in> set (snd (scan_all_branches at_threshold_api 1))"
      by (elim conjE)
    then show ?thesis by (simp add: lbr get_or_def)
  qed
  show ?thesis
    by (intro conjI tr lg flag nl within fh2 pi2 nlg len ca cb tf nce nflag dk dv)
qed

section \<open>Properties of the aggregation of one project\<close>

























end
